theory Spec2Isabelle
  imports Complex_Main "HOL-Library.Word" "HOL-Library.Sublist"
begin

section \<open>Pendant cluster builder: geometry, scene assembly and binary export\<close>

text \<open>
  A shallow embedding of \<^verbatim>\<open>app/builder/geometry.py\<close>, \<^verbatim>\<open>app/builder/build.py\<close> and
  \<^verbatim>\<open>app/builder/exporter.py\<close>. Python floats are read as real numbers: every
  arithmetic expression is kept in the order the source writes it, and rounding is not
  part of the model. Library calls whose result the source only passes on (reading a file,
  the random generator, \<^verbatim>\<open>struct.pack\<close> of a float, \<^verbatim>\<open>json.dumps\<close>,
  \<^verbatim>\<open>str.strip\<close>) are parameters of the model.
\<close>

subsection \<open>Errors\<close>

datatype error = IndexError | KeyError | ValueError | AttributeError | StructError | OverflowError
  | TypeError

subsection \<open>Drop planning (geometry.py, lines 161 to 173)\<close>

text \<open>
  \<^verbatim>\<open>occupied = tops[0] + bottoms[-1]; for i in range(n - 1): occupied += bottoms[i] + tops[i + 1]\<close>
\<close>

definition occupied_clearance :: "nat \<Rightarrow> real list \<Rightarrow> real list \<Rightarrow> real" where
  "occupied_clearance n tops bottoms =
     fold (\<lambda>i occupied. occupied + (bottoms ! i + tops ! (i + 1))) [0..<n - 1]
       (tops ! 0 + last bottoms)"

text \<open>\<^verbatim>\<open>gap = 0.0 if n <= 1 else (available - occupied) / (n - 1)\<close>\<close>

definition gap_of :: "nat \<Rightarrow> real \<Rightarrow> real \<Rightarrow> real" where
  "gap_of n available occupied =
     (if n \<le> 1 then 0 else (available - occupied) / real (n - 1))"

text \<open>
  \<^verbatim>\<open>drops = [first]; for i in range(n - 1): drops.append(drops[-1] + bottoms[i] + tops[i + 1] + gap)\<close>
\<close>

definition drops_of :: "nat \<Rightarrow> real \<Rightarrow> real list \<Rightarrow> real list \<Rightarrow> real \<Rightarrow> real list" where
  "drops_of n first tops bottoms gap =
     fold (\<lambda>i drops. drops @ [last drops + bottoms ! i + tops ! (i + 1) + gap]) [0..<n - 1]
       [first]"

text \<open>
  The whole block. \<open>tops\<close> and \<open>bottoms\<close> are filled by the loop over the pendants
  just before it, one entry per pendant, so both have length \<open>n\<close>; with no pendant
  \<^verbatim>\<open>tops[0]\<close> raises. The result is the gap and the list of cumulative drops.
\<close>

definition plan_drops :: "nat \<Rightarrow> int \<Rightarrow> int \<Rightarrow> real list \<Rightarrow> real list \<Rightarrow> error + (real \<times> real list)" where
  "plan_drops n first_mm total_mm tops bottoms =
     (if tops = [] \<or> bottoms = [] then Inl IndexError
      else
        let first = real_of_int first_mm;
            total = real_of_int total_mm;
            occupied = occupied_clearance n tops bottoms;
            available = total - first;
            gap = gap_of n available occupied
        in Inr (gap, drops_of n first tops bottoms gap))"

subsection \<open>Geometry values and the mesh store\<close>

text \<open>
  \<^verbatim>\<open>rhino3dm.Point3d\<close> and \<^verbatim>\<open>rhino3dm.Vector3d\<close> are triples of coordinates. A
  \<^verbatim>\<open>rhino3dm.Mesh\<close> is read by the exporter through its vertex list and its face
  list only, so a mesh value is these two lists. A face is either an object with the
  attributes \<^verbatim>\<open>IsTriangle, A, B, C, D\<close> (here \<open>f_A\<close> to \<open>f_D\<close>) or a plain sequence of vertex indices: the
  exporter tells the two apart.
\<close>

datatype point3d = Point3d (X: real) (Y: real) (Z: real)

datatype vector3d = Vector3d (VX: real) (VY: real) (VZ: real)

datatype face = FaceObject (IsTriangle: bool) (f_A: nat) (f_B: nat) (f_C: nat) (f_D: nat)
  | FaceSeq "nat list"

record mesh =
  Vertices :: "point3d list"
  Faces :: "face list"

text \<open>
  Mesh objects are mutable and shared by reference (the memoised templates are the same
  objects on every call), so they live in a store: a reference is an index into
  \<open>heap\<close>. The two \<^verbatim>\<open>lru_cache\<close> tables of \<^verbatim>\<open>geometry.py\<close> are part of the
  state. At most the 23 keys of \<^verbatim>\<open>PENDANT_LIBRARY\<close> are ever cached (an unknown key
  raises before anything is stored), which is below \<^verbatim>\<open>maxsize=128\<close>, so no entry is
  evicted.
\<close>

type_synonym mesh_ref = nat

record state =
  heap :: "mesh list"
  load_cache :: "string \<Rightarrow> mesh_ref list option"
  extents_cache :: "string \<Rightarrow> (real \<times> real) option"

definition alloc :: "mesh \<Rightarrow> state \<Rightarrow> mesh_ref \<times> state" where
  "alloc m s = (length (heap s), s\<lparr>heap := heap s @ [m]\<rparr>)"

text \<open>\<^verbatim>\<open>m.Duplicate()\<close>: a new object with the same contents.\<close>

definition Duplicate :: "mesh_ref \<Rightarrow> state \<Rightarrow> mesh_ref \<times> state" where
  "Duplicate r s = alloc (heap s ! r) s"

subsection \<open>Transforms\<close>

text \<open>
  \<^verbatim>\<open>rhino3dm.Transform\<close>: the two constructors the source calls,
  \<^verbatim>\<open>Transform.Translation(x, y, z)\<close> and \<^verbatim>\<open>Transform.Rotation(angle, axis, center)\<close>. A
  rotation by \<open>angle\<close> about the axis through \<open>center\<close> is Rodrigues' formula on the
  unit axis.
\<close>

datatype transform = Translation real real real | Rotation real vector3d point3d

definition vec_length :: "vector3d \<Rightarrow> real" where
  "vec_length v = sqrt (VX v * VX v + VY v * VY v + VZ v * VZ v)"

text \<open>\<^verbatim>\<open>Vector3d.Unitize()\<close>: a zero vector is left as it is.\<close>

definition Unitize :: "vector3d \<Rightarrow> vector3d" where
  "Unitize v = (if vec_length v = 0 then v
                else Vector3d (VX v / vec_length v) (VY v / vec_length v) (VZ v / vec_length v))"

definition CrossProduct :: "vector3d \<Rightarrow> vector3d \<Rightarrow> vector3d" where
  "CrossProduct a b = Vector3d (VY a * VZ b - VZ a * VY b)
                               (VZ a * VX b - VX a * VZ b)
                               (VX a * VY b - VY a * VX b)"

definition rotate_about :: "real \<Rightarrow> vector3d \<Rightarrow> vector3d \<Rightarrow> vector3d" where
  "rotate_about angle axis v =
     (let k = Unitize axis;
          kxv = CrossProduct k v;
          kv = VX k * VX v + VY k * VY v + VZ k * VZ v
      in Vector3d (VX v * cos angle + VX kxv * sin angle + VX k * kv * (1 - cos angle))
                  (VY v * cos angle + VY kxv * sin angle + VY k * kv * (1 - cos angle))
                  (VZ v * cos angle + VZ kxv * sin angle + VZ k * kv * (1 - cos angle)))"

fun apply_transform :: "transform \<Rightarrow> point3d \<Rightarrow> point3d" where
  "apply_transform (Translation dx dy dz) p = Point3d (X p + dx) (Y p + dy) (Z p + dz)"
| "apply_transform (Rotation angle axis center) p =
     (let v = rotate_about angle axis (Vector3d (X p - X center) (Y p - Y center) (Z p - Z center))
      in Point3d (X center + VX v) (Y center + VY v) (Z center + VZ v))"

definition transform_mesh :: "transform \<Rightarrow> mesh \<Rightarrow> mesh" where
  "transform_mesh xf m = m\<lparr>Vertices := map (apply_transform xf) (Vertices m)\<rparr>"

text \<open>\<^verbatim>\<open>m.Transform(xf)\<close>: the object is changed in place.\<close>

definition Transform :: "mesh_ref \<Rightarrow> transform \<Rightarrow> state \<Rightarrow> state" where
  "Transform r xf s = s\<lparr>heap := (heap s)[r := transform_mesh xf (heap s ! r)]\<rparr>"

subsection \<open>Basic mesh helpers (geometry.py, lines 20 to 63)\<close>

text \<open>
  \<^verbatim>\<open>create_cylinder_mesh\<close>. \<^verbatim>\<open>Vertices.Add\<close> returns the index of the new vertex:
  the first loop adds bottom and top ring vertices alternately, so ring vertex \<open>i\<close> has
  index \<open>2 i\<close> (bottom) and \<open>2 i + 1\<close> (top); the two centres follow. The binding keeps
  a triangle as a face whose fourth index repeats the third.
  \<^verbatim>\<open>ComputeNormals\<close> and \<^verbatim>\<open>Compact\<close> leave vertices and faces as they are (every
  vertex is used by a face when there is at least one segment).
\<close>

definition cylinder_vertices :: "real \<Rightarrow> real \<Rightarrow> nat \<Rightarrow> point3d list" where
  "cylinder_vertices radius height segments =
     concat (map (\<lambda>i. let a = 2 * pi * real i / real segments
                       in [Point3d (radius * cos a) (radius * sin a) 0,
                           Point3d (radius * cos a) (radius * sin a) height])
                 [0..<segments])
     @ [Point3d 0 0 0, Point3d 0 0 height]"

definition cylinder_faces :: "nat \<Rightarrow> face list" where
  "cylinder_faces segments =
     map (\<lambda>i. let i2 = (i + 1) mod segments
               in FaceSeq [2 * i, 2 * i2, 2 * i2 + 1, 2 * i + 1]) [0..<segments]
     @ concat (map (\<lambda>i. let i2 = (i + 1) mod segments; cb = 2 * segments; ct = 2 * segments + 1
                         in [FaceSeq [cb, 2 * i2, 2 * i, 2 * i],
                             FaceSeq [ct, 2 * i + 1, 2 * i2 + 1, 2 * i2 + 1]]) [0..<segments])"

definition cylinder_mesh :: "real \<Rightarrow> real \<Rightarrow> nat \<Rightarrow> mesh" where
  "cylinder_mesh radius height segments =
     \<lparr>Vertices = cylinder_vertices radius height segments, Faces = cylinder_faces segments\<rparr>"

definition create_cylinder_mesh :: "real \<Rightarrow> real \<Rightarrow> nat \<Rightarrow> state \<Rightarrow> mesh_ref \<times> state" where
  "create_cylinder_mesh radius height segments s = alloc (cylinder_mesh radius height segments) s"

text \<open>
  The value that \<^verbatim>\<open>_rotation_from_z\<close> returns. Line 55 is
  \<^verbatim>\<open>return rhino3dm.Transform.Identity\<close>, without a call: in the binding \<^verbatim>\<open>Identity\<close> is a
  static method, as \<^verbatim>\<open>Translation\<close> and \<^verbatim>\<open>Rotation\<close> are, so what is returned there is
  the method object and not a \<^verbatim>\<open>Transform\<close>. \<^verbatim>\<open>Mesh.Transform\<close> takes a
  \<^verbatim>\<open>Transform\<close> and raises \<^verbatim>\<open>TypeError\<close> for any other argument.
\<close>

datatype transform_or_method = Identity_method | A_transform (the_transform: transform)

definition Transform_checked :: "mesh_ref \<Rightarrow> transform_or_method \<Rightarrow> state \<Rightarrow> error + state" where
  "Transform_checked r arg s =
     (case arg of
        Identity_method \<Rightarrow> Inl TypeError
      | A_transform xf \<Rightarrow> Inr (Transform r xf s))"

text \<open>
  \<^verbatim>\<open>_rotation_from_z\<close>. The source unitizes its argument in place; the caller does not
  read the vector again.
\<close>

definition rotation_from_z :: "vector3d \<Rightarrow> transform_or_method" where
  "rotation_from_z direction =
     (let z = Vector3d 0 0 1;
          d = Unitize direction;
          dot = max (- 1) (min 1 (VX z * VX d + VY z * VY d + VZ z * VZ d))
      in if \<bar>dot - 1\<bar> < 1 / 10 ^ 8 then Identity_method
         else if \<bar>dot + 1\<bar> < 1 / 10 ^ 8 then A_transform (Rotation pi (Vector3d 1 0 0) (Point3d 0 0 0))
         else A_transform (Rotation (arccos dot) (CrossProduct z d) (Point3d 0 0 0)))"

subsection \<open>Configuration (schema.py) and settings (settings.py)\<close>

datatype ClusterType = RING | RING_WITH_CENTER | RANDOM_RING

text \<open>
  The fields of the pydantic models that the builder reads. \<open>canopy_size\<close> is
  \<^verbatim>\<open>canopy.size\<close>, \<open>canopy_appearance\<close> is \<^verbatim>\<open>canopy.appearance\<close>, and so on;
  \<^verbatim>\<open>layout.cluster_type\<close> is declared \<^verbatim>\<open>Optional[ClusterType]\<close>.
\<close>

record PendantConfig =
  pendant_model :: string
  pendant_appearance :: string

record ClusterConfig =
  canopy_size :: string
  canopy_appearance :: string
  cable_appearance :: string
  cluster_type :: "ClusterType option"
  first_drop_mm :: int
  total_drop_mm :: int
  pendants :: "PendantConfig list"
  random_seed :: int

record canopy_spec =
  outer_radius_mm :: real
  inner_radius_mm :: real
  cable_offset_mm :: real
  height_mm :: real
  plate_thickness_mm :: real

definition CANOPY_SPECS :: "string \<Rightarrow> canopy_spec option" where
  "CANOPY_SPECS = map_of
     [(''s'', \<lparr>outer_radius_mm = 150, inner_radius_mm = 130, cable_offset_mm = 20,
               height_mm = 40, plate_thickness_mm = 3 / 2\<rparr>),
      (''m'', \<lparr>outer_radius_mm = 300, inner_radius_mm = 280, cable_offset_mm = 30,
               height_mm = 40, plate_thickness_mm = 3 / 2\<rparr>),
      (''l'', \<lparr>outer_radius_mm = 450, inner_radius_mm = 430, cable_offset_mm = 30,
               height_mm = 40, plate_thickness_mm = 3 / 2\<rparr>)]"

definition CABLE_RADIUS_MM :: real where
  "CABLE_RADIUS_MM = 5 / 2"

subsection \<open>Canopy (geometry.py, lines 71 to 104)\<close>

text \<open>
  The attachment points (lines 85 to 102). \<^verbatim>\<open>n_pendants\<close> is a Python int;
  \<^verbatim>\<open>range(k)\<close> is empty for \<open>k \<le> 0\<close>.
\<close>

definition canopy_points :: "canopy_spec \<Rightarrow> int \<Rightarrow> ClusterType option \<Rightarrow> point3d list" where
  "canopy_points spec n_pendants ct =
     (let conn_r = inner_radius_mm spec - cable_offset_mm spec;
          zc = - height_mm spec;
          wants_center = (ct = Some RING_WITH_CENTER \<or> ct = Some RANDOM_RING)
      in if wants_center then
           (let ring_count = max 0 (n_pendants - 1)
            in map (\<lambda>i. let a = 2 * pi * real i / real_of_int (max 1 ring_count)
                         in Point3d (conn_r * cos a) (conn_r * sin a) zc)
                   [0..<nat ring_count]
               @ [Point3d 0 0 zc])
         else
           map (\<lambda>i. let a = 2 * pi * real i / real_of_int (max 1 n_pendants)
                     in Point3d (conn_r * cos a) (conn_r * sin a) zc)
               [0..<nat n_pendants])"

definition build_canopy ::
  "string \<Rightarrow> int \<Rightarrow> ClusterType option \<Rightarrow> state \<Rightarrow> (error + mesh_ref \<times> mesh_ref \<times> point3d list) \<times> state" where
  "build_canopy size_key n_pendants ct s =
     (case CANOPY_SPECS size_key of
        None \<Rightarrow> (Inl KeyError, s)
      | Some spec \<Rightarrow>
          (let r_in = inner_radius_mm spec;
               r_out = outer_radius_mm spec;
               height = height_mm spec;
               plate = plate_thickness_mm spec;
               (bottom_mesh, s1) = create_cylinder_mesh r_out plate 96 s;
               s2 = Transform bottom_mesh (Translation 0 0 (- height)) s1;
               (top_mesh, s3) = create_cylinder_mesh (r_in + plate) (height - plate) 96 s2;
               s4 = Transform top_mesh (Translation 0 0 (- (height - plate))) s3
           in (Inr (bottom_mesh, top_mesh, canopy_points spec n_pendants ct), s4)))"

text \<open>The state of a fresh process: no mesh object yet, both caches empty.\<close>

definition init_state :: state where
  "init_state = \<lparr>heap = [], load_cache = (\<lambda>k. None), extents_cache = (\<lambda>k. None)\<rparr>"

subsection \<open>Binary container (exporter.py, lines 9 to 19 and 157 to 167)\<close>

type_synonym byte = "8 word"

lemma pad_measure: "n mod 4 \<noteq> 0 \<Longrightarrow> (4 - Suc n mod 4) mod 4 < (4 - n mod 4) mod (4::nat)"
  by (cases "n mod 4 = 1"; cases "n mod 4 = 2"; cases "n mod 4 = 3") (auto simp: mod_Suc)

text \<open>
  \<^verbatim>\<open>pad_to_4\<close>: \<^verbatim>\<open>while len(data) % 4 != 0: data += b"\\x00"\<close>. The loop ends because
  the distance to the next multiple of four shrinks.
\<close>

function pad_to_4 :: "byte list \<Rightarrow> byte list" where
  "pad_to_4 data = (if length data mod 4 \<noteq> 0 then pad_to_4 (data @ [0]) else data)"
  by pat_completeness auto
termination
proof (relation "measure (\<lambda>data. (4 - length data mod 4) mod 4)")
  show "wf (measure (\<lambda>data :: byte list. (4 - length data mod 4) mod 4))" by simp
next
  fix data :: "byte list"
  assume "length data mod 4 \<noteq> 0"
  then show "(data @ [0], data) \<in> measure (\<lambda>data. (4 - length data mod 4) mod 4)"
    using pad_measure [of "length data"] by simp
qed

declare pad_to_4.simps [simp del]

text \<open>
  \<^verbatim>\<open>pad_json_to_4\<close>: the text is encoded and then padded with spaces by the same
  loop. \<^verbatim>\<open>json.dumps\<close> writes ASCII only, so a character is one byte.
\<close>

function pad_loop_space :: "byte list \<Rightarrow> byte list" where
  "pad_loop_space data = (if length data mod 4 \<noteq> 0 then pad_loop_space (data @ [32]) else data)"
  by pat_completeness auto
termination
proof (relation "measure (\<lambda>data. (4 - length data mod 4) mod 4)")
  show "wf (measure (\<lambda>data :: byte list. (4 - length data mod 4) mod 4))" by simp
next
  fix data :: "byte list"
  assume "length data mod 4 \<noteq> 0"
  then show "(data @ [32], data) \<in> measure (\<lambda>data. (4 - length data mod 4) mod 4)"
    using pad_measure [of "length data"] by simp
qed

declare pad_loop_space.simps [simp del]

definition encode_utf8 :: "string \<Rightarrow> byte list" where
  "encode_utf8 str = map (\<lambda>c. of_nat (of_char c)) str"

definition pad_json_to_4 :: "string \<Rightarrow> byte list" where
  "pad_json_to_4 json_str = pad_loop_space (encode_utf8 json_str)"

text \<open>
  \<^verbatim>\<open>struct.pack("<I", x)\<close>: four bytes, least significant first;
  \<^verbatim>\<open>struct.error\<close> when \<open>x\<close> does not fit 32 bits. \<open>unpack_I\<close> reads such a
  field back.
\<close>

definition le_bytes_u32 :: "nat \<Rightarrow> byte list" where
  "le_bytes_u32 x = [of_nat x, of_nat (x div 256), of_nat (x div 65536), of_nat (x div 16777216)]"

definition pack_I :: "nat \<Rightarrow> error + byte list" where
  "pack_I x = (if x < 2 ^ 32 then Inr (le_bytes_u32 x) else Inl StructError)"


text \<open>
  Lines 157 to 167 of \<^verbatim>\<open>save_mesh_groups_as_glb\<close>: from the text that
  \<^verbatim>\<open>json.dumps(gltf)\<close> returned and the list \<^verbatim>\<open>buffers\<close> to the bytes written to
  the file. The header is packed before the file is opened.
\<close>

definition write_glb :: "string \<Rightarrow> byte list list \<Rightarrow> error + byte list" where
  "write_glb gltf_json buffers =
     (let json_chunk = pad_json_to_4 gltf_json;
          bin_chunk = pad_to_4 (concat buffers)
      in case pack_I (12 + 8 + length json_chunk + 8 + length bin_chunk) of
           Inl e \<Rightarrow> Inl e
         | Inr total_field \<Rightarrow>
             (let header = encode_utf8 ''glTF'' @ le_bytes_u32 2 @ total_field
              in case pack_I (length json_chunk) of
                   Inl e \<Rightarrow> Inl e
                 | Inr json_len \<Rightarrow>
                     (case pack_I (length bin_chunk) of
                        Inl e \<Rightarrow> Inl e
                      | Inr bin_len \<Rightarrow>
                          Inr (header
                               @ (json_len @ encode_utf8 ''JSON'')
                               @ json_chunk
                               @ (bin_len @ (encode_utf8 ''BIN'' @ [0]))
                               @ bin_chunk))))"

subsection \<open>Vertex arrays and UVs (exporter.py, lines 22 to 69)\<close>

text \<open>
  \<^verbatim>\<open>math.atan2(y, x)\<close> on real numbers: the angle of the point \<open>(x, y)\<close> in
  \<open>(- pi, pi]\<close>, and \<open>0\<close> at the origin. Signed zeros are not part of the model.
\<close>

definition atan2 :: "real \<Rightarrow> real \<Rightarrow> real" where
  "atan2 y x =
     (if 0 < x then arctan (y / x)
      else if x < 0 \<and> 0 \<le> y then arctan (y / x) + pi
      else if x < 0 then arctan (y / x) - pi
      else if 0 < y then pi / 2
      else if y < 0 then - (pi / 2)
      else 0)"

definition mapping_type_from_material_key :: "string \<Rightarrow> string" where
  "mapping_type_from_material_key key = (if prefix ''shade_'' key then ''cylindrical'' else ''planar'')"

definition compute_planar_uv :: "real \<Rightarrow> real \<Rightarrow> real \<Rightarrow> real \<times> real" where
  "compute_planar_uv x y scale = (x / scale + 1 / 2, y / scale + 1 / 2)"

definition compute_cylindrical_uv :: "real \<Rightarrow> real \<Rightarrow> real \<Rightarrow> real \<Rightarrow> real \<times> real" where
  "compute_cylindrical_uv x y z scale_height =
     (let angle = atan2 y x;
          u = angle / (2 * pi) + 1 / 2;
          v = z / scale_height + 1 / 2
      in (u, v))"

text \<open>
  The face loop of \<^verbatim>\<open>mesh_to_arrays\<close>: a triangle gives three indices, a quad is
  split along \<open>A\<close>-\<open>C\<close>, a sequence of any other length gives nothing.
\<close>

fun face_indices :: "face \<Rightarrow> nat list" where
  "face_indices (FaceObject is_triangle a b c d) =
     (if is_triangle then [a, b, c] else [a, b, c, a, c, d])"
| "face_indices (FaceSeq f) =
     (if length f = 3 then f
      else if length f = 4 then [f ! 0, f ! 1, f ! 2, f ! 0, f ! 2, f ! 3]
      else [])"

definition mesh_to_arrays :: "mesh \<Rightarrow> string \<Rightarrow> real list \<times> real list \<times> nat list" where
  "mesh_to_arrays m mapping_type =
     (let positions = concat (map (\<lambda>v. [X v / 1000, Z v / 1000, Y v / 1000]) (Vertices m));
          uvs = concat (map (\<lambda>v. let (u, vv) = (if mapping_type = ''cylindrical''
                                                  then compute_cylindrical_uv (X v) (Y v) (Z v) 500
                                                  else compute_planar_uv (X v) (Y v) 500)
                                   in [u, vv]) (Vertices m));
          indices = concat (map face_indices (Faces m))
      in (positions, uvs, indices))"

subsection \<open>Pendant templates (library.py and geometry.py, lines 111 to 136)\<close>

definition PENDANT_LIBRARY :: "(string \<times> string) list" where
  "PENDANT_LIBRARY =
     [(''denny'', ''Denny.3dm''), (''alki'', ''Alki.3dm''), (''allyn'', ''Allyn.3dm''),
      (''madison'', ''Madison.3dm''), (''moon10'', ''Moon10.3dm''), (''moon14'', ''Moon14.3dm''),
      (''moon18'', ''Moon18.3dm''), (''moon24'', ''Moon24.3dm''), (''nest24'', ''Nest24.3dm''),
      (''nest32'', ''Nest32.3dm''), (''hive9'', ''Hive9.3dm''), (''hive12'', ''Hive12.3dm''),
      (''hive15'', ''Hive15.3dm''), (''drop18'', ''Drop18.3dm''), (''drop26'', ''Drop26.3dm''),
      (''disc16'', ''Disc16.3dm''), (''disc20'', ''Disc20.3dm''), (''disc24'', ''Disc24.3dm''),
      (''bell10'', ''Bell10.3dm''), (''bell16'', ''Bell16.3dm''), (''ausi8'', ''Ausi8.3dm''),
      (''ausi12'', ''Ausi12.3dm''), (''ausi14'', ''Ausi14.3dm'')]"

text \<open>\<^verbatim>\<open>get_pendant_path\<close>: the file name under \<^verbatim>\<open>PENDANTS_DIR\<close>; an unknown key raises.\<close>

definition get_pendant_path :: "string \<Rightarrow> error + string" where
  "get_pendant_path key =
     (case map_of PENDANT_LIBRARY key of None \<Rightarrow> Inl ValueError | Some path \<Rightarrow> Inr path)"

text \<open>
  What the builder takes from outside the repository: the pendant files and Python's
  random generator. \<open>File3dm_Read path\<close> is the list of the meshes among the objects
  of the model read from \<open>path\<close>, or \<open>None\<close> when \<^verbatim>\<open>File3dm.Read\<close> returns
  \<^verbatim>\<open>None\<close>. \<open>new_Random seed\<close> is \<^verbatim>\<open>random.Random(seed)\<close>, and
  \<open>rng_random\<close> and \<open>rng_shuffle\<close> are its methods \<^verbatim>\<open>random()\<close> and
  \<^verbatim>\<open>shuffle(xs)\<close>, each returning the generator's next state as well.
\<close>

record 'g env =
  File3dm_Read :: "string \<Rightarrow> mesh list option"
  new_Random :: "int \<Rightarrow> 'g"
  rng_random :: "'g \<Rightarrow> real \<times> 'g"
  rng_shuffle :: "'g \<Rightarrow> nat list \<Rightarrow> nat list \<times> 'g"

text \<open>
  \<^verbatim>\<open>_load_pendant_meshes\<close> under \<^verbatim>\<open>lru_cache\<close>: a cached key returns the stored
  tuple, that is the same objects; otherwise the file is read, each mesh is duplicated
  into a new object, and the tuple is stored. A call that raises stores nothing.
\<close>

definition load_pendant_meshes :: "'g env \<Rightarrow> string \<Rightarrow> state \<Rightarrow> (error + mesh_ref list) \<times> state" where
  "load_pendant_meshes env model_key s =
     (case load_cache s model_key of
        Some refs \<Rightarrow> (Inr refs, s)
      | None \<Rightarrow>
          (case get_pendant_path model_key of
             Inl e \<Rightarrow> (Inl e, s)
           | Inr path \<Rightarrow>
               (case File3dm_Read env path of
                  None \<Rightarrow> (Inl AttributeError, s)
                | Some ms \<Rightarrow>
                    (let refs = [length (heap s)..<length (heap s) + length ms]
                     in (Inr refs,
                         s\<lparr>heap := heap s @ ms,
                           load_cache := (load_cache s)(model_key \<mapsto> refs)\<rparr>)))))"

text \<open>
  Bounding boxes, of which the source reads \<^verbatim>\<open>Max.Z\<close> and \<^verbatim>\<open>Min.Z\<close> only. A mesh
  without vertices has the empty box, which a union ignores and whose corners read
  \<open>0\<close> in \<open>Z\<close>.
\<close>

datatype bbox = EmptyBox | Box real real

definition GetBoundingBox :: "mesh \<Rightarrow> bbox" where
  "GetBoundingBox m =
     (case Vertices m of
        [] \<Rightarrow> EmptyBox
      | v # vs \<Rightarrow> Box (fold min (map Z vs) (Z v)) (fold max (map Z vs) (Z v)))"

fun Union_bbox :: "bbox \<Rightarrow> bbox \<Rightarrow> bbox" where
  "Union_bbox EmptyBox b = b"
| "Union_bbox a EmptyBox = a"
| "Union_bbox (Box lo1 hi1) (Box lo2 hi2) = Box (min lo1 lo2) (max hi1 hi2)"

fun Min_Z :: "bbox \<Rightarrow> real" where
  "Min_Z EmptyBox = 0"
| "Min_Z (Box lo hi) = lo"

fun Max_Z :: "bbox \<Rightarrow> real" where
  "Max_Z EmptyBox = 0"
| "Max_Z (Box lo hi) = hi"

text \<open>
  The loop of \<^verbatim>\<open>_pendant_extents\<close>, and the extents it returns: with no mesh at
  all \<^verbatim>\<open>bbox\<close> stays \<^verbatim>\<open>None\<close> and \<^verbatim>\<open>bbox.Max\<close> raises.
\<close>

definition union_of_boxes :: "mesh list \<Rightarrow> bbox option" where
  "union_of_boxes ms =
     fold (\<lambda>m bbox. case bbox of None \<Rightarrow> Some (GetBoundingBox m)
                              | Some bb \<Rightarrow> Some (Union_bbox bb (GetBoundingBox m))) ms None"

definition extents_of_meshes :: "mesh list \<Rightarrow> error + real \<times> real" where
  "extents_of_meshes ms =
     (case union_of_boxes ms of
        None \<Rightarrow> Inl AttributeError
      | Some bbox \<Rightarrow> Inr (Max_Z bbox, - Min_Z bbox))"

definition pendant_extents :: "'g env \<Rightarrow> string \<Rightarrow> state \<Rightarrow> (error + real \<times> real) \<times> state" where
  "pendant_extents env model_key s =
     (case extents_cache s model_key of
        Some e \<Rightarrow> (Inr e, s)
      | None \<Rightarrow>
          (case load_pendant_meshes env model_key s of
             (Inl e, s1) \<Rightarrow> (Inl e, s1)
           | (Inr refs, s1) \<Rightarrow>
               (case extents_of_meshes (map (\<lambda>r. heap s1 ! r) refs) of
                  Inl e \<Rightarrow> (Inl e, s1)
                | Inr tb \<Rightarrow> (Inr tb, s1\<lparr>extents_cache := (extents_cache s1)(model_key \<mapsto> tb)\<rparr>))))"

record PendantPlacement =
  pl_pendant :: PendantConfig
  pl_start :: point3d
  pl_end :: point3d
  pl_meshes :: "mesh_ref list"

subsection \<open>Core placement logic (geometry.py, lines 143 to 220)\<close>

text \<open>\<^verbatim>\<open>tuple(m.Duplicate() for m in meshes)\<close>\<close>

fun duplicate_all :: "mesh_ref list \<Rightarrow> state \<Rightarrow> mesh_ref list \<times> state" where
  "duplicate_all [] s = ([], s)"
| "duplicate_all (m # ms) s =
     (let (m', s1) = Duplicate m s;
          (ms', s2) = duplicate_all ms s1
      in (m' # ms', s2))"

text \<open>
  The loop over the pendants (lines 155 to 159): the extents and a private copy of the
  template meshes of each pendant, in configuration order.
\<close>

fun load_all ::
  "'g env \<Rightarrow> PendantConfig list \<Rightarrow> state \<Rightarrow> (error + real list \<times> real list \<times> mesh_ref list list) \<times> state" where
  "load_all env [] s = (Inr ([], [], []), s)"
| "load_all env (p # ps) s =
     (case pendant_extents env (pendant_model p) s of
        (Inl e, s1) \<Rightarrow> (Inl e, s1)
      | (Inr (t, b), s1) \<Rightarrow>
          (case load_pendant_meshes env (pendant_model p) s1 of
             (Inl e, s2) \<Rightarrow> (Inl e, s2)
           | (Inr refs, s2) \<Rightarrow>
               (let (copies, s3) = duplicate_all refs s2
                in case load_all env ps s3 of
                     (Inl e, s4) \<Rightarrow> (Inl e, s4)
                   | (Inr (tops, bottoms, meshes_by_index), s4) \<Rightarrow>
                       (Inr (t # tops, b # bottoms, copies # meshes_by_index), s4))))"

text \<open>
  The assignment order (lines 175 to 186). \<^verbatim>\<open>sorted\<close> is stable, as \<open>sort_key\<close>
  is; its key reads \<^verbatim>\<open>connection_points[i]\<close> for every \<open>i < n\<close>, which raises when
  there are fewer points than pendants.
\<close>

definition assignment_indices ::
  "'g env \<Rightarrow> nat \<Rightarrow> ClusterType option \<Rightarrow> point3d list \<Rightarrow> 'g \<Rightarrow> error + nat list \<times> 'g" where
  "assignment_indices env n ct connection_points rng =
     (if 1 < n \<and> ct \<in> {Some RING, Some RING_WITH_CENTER, Some RANDOM_RING} then
        (if length connection_points < n then Inl IndexError
         else
           (let indices = sort_key (\<lambda>i. atan2 (Y (connection_points ! i)) (X (connection_points ! i)))
                                   [0..<n]
            in if ct = Some RANDOM_RING then Inr (rng_shuffle env rng indices)
               else Inr (indices, rng)))
      else Inr ([0..<n], rng))"

text \<open>The inner loop (lines 203 to 208): each mesh is duplicated, then rotated and moved.\<close>

fun place_meshes :: "transform \<Rightarrow> transform \<Rightarrow> mesh_ref list \<Rightarrow> state \<Rightarrow> mesh_ref list \<times> state" where
  "place_meshes rot tr [] s = ([], s)"
| "place_meshes rot tr (m # ms) s =
     (let (mm, s1) = Duplicate m s;
          s2 = Transform mm rot s1;
          s3 = Transform mm tr s2;
          (placed, s4) = place_meshes rot tr ms s3
      in (mm # placed, s4))"

text \<open>
  The loop over \<^verbatim>\<open>range(n)\<close> (lines 190 to 218). \<open>drops\<close>, \<open>meshes_by_index\<close> and
  the pendants have one entry per pendant; \<open>indices\<close> comes from the shuffle and
  \<^verbatim>\<open>connection_points\<close> from the caller, so these two reads can raise.
\<close>

fun place_loop ::
  "'g env \<Rightarrow> PendantConfig list \<Rightarrow> point3d list \<Rightarrow> nat list \<Rightarrow> real list \<Rightarrow> mesh_ref list list
     \<Rightarrow> nat list \<Rightarrow> 'g \<Rightarrow> state \<Rightarrow> (error + PendantPlacement list) \<times> state" where
  "place_loop env ps connection_points indices drops meshes_by_index [] rng s = (Inr [], s)"
| "place_loop env ps connection_points indices drops meshes_by_index (i # is) rng s =
     (if length indices \<le> i \<or> length connection_points \<le> indices ! i then (Inl IndexError, s)
      else
        (let sp = connection_points ! (indices ! i);
             drop = drops ! i;
             ep = Point3d (X sp) (Y sp) (Z sp - drop);
             (r, rng1) = rng_random env rng;
             twist = r * (2 * pi);
             rot = Rotation twist (Vector3d 0 0 1) (Point3d 0 0 0);
             (placed, s1) = place_meshes rot (Translation (X ep) (Y ep) (Z ep)) (meshes_by_index ! i) s
         in case place_loop env ps connection_points indices drops meshes_by_index is rng1 s1 of
              (Inl e, s2) \<Rightarrow> (Inl e, s2)
            | (Inr placements, s2) \<Rightarrow>
                (Inr (\<lparr>pl_pendant = ps ! i, pl_start = sp, pl_end = ep, pl_meshes = placed\<rparr>
                      # placements), s2)))"

definition place_pendants_then_plan_cables ::
  "'g env \<Rightarrow> ClusterConfig \<Rightarrow> point3d list \<Rightarrow> state \<Rightarrow> (error + PendantPlacement list) \<times> state" where
  "place_pendants_then_plan_cables env config connection_points s =
     (let n = length (pendants config);
          rng = new_Random env (random_seed config)
      in case load_all env (pendants config) s of
           (Inl e, s1) \<Rightarrow> (Inl e, s1)
         | (Inr (tops, bottoms, meshes_by_index), s1) \<Rightarrow>
             (case plan_drops n (first_drop_mm config) (total_drop_mm config) tops bottoms of
                Inl e \<Rightarrow> (Inl e, s1)
              | Inr (gap, drops) \<Rightarrow>
                  (case assignment_indices env n (cluster_type config) connection_points rng of
                     Inl e \<Rightarrow> (Inl e, s1)
                   | Inr (indices, rng1) \<Rightarrow>
                       place_loop env (pendants config) connection_points indices drops
                         meshes_by_index [0..<n] rng1 s1)))"

subsection \<open>Cables (geometry.py, lines 227 to 246)\<close>

definition segment_vector :: "PendantPlacement \<Rightarrow> vector3d" where
  "segment_vector pl =
     (let sp = pl_start pl; ep = pl_end pl
      in Vector3d (X ep - X sp) (Y ep - Y sp) (Z ep - Z sp))"

text \<open>
  The loop of \<^verbatim>\<open>build_cables_from_placements\<close>. The first \<^verbatim>\<open>cyl.Transform\<close> (line 241)
  raises when \<^verbatim>\<open>_rotation_from_z\<close> returned the method object; the cylinder has been made
  by then.
\<close>

fun build_cables_from_placements ::
  "PendantPlacement list \<Rightarrow> state \<Rightarrow> (error + mesh_ref list \<times> point3d list) \<times> state" where
  "build_cables_from_placements [] s = (Inr ([], []), s)"
| "build_cables_from_placements (pl # pls) s =
     (let sp = pl_start pl;
          ep = pl_end pl;
          d = segment_vector pl;
          len = vec_length d
      in if len < 1 / 10 ^ 6 then build_cables_from_placements pls s
         else
           (let (cyl, s1) = create_cylinder_mesh CABLE_RADIUS_MM len 32 s
            in case Transform_checked cyl (rotation_from_z d) s1 of
                 Inl e \<Rightarrow> (Inl e, s1)
               | Inr s2 \<Rightarrow>
                   (let s3 = Transform cyl (Translation (X sp) (Y sp) (Z sp)) s2
                    in case build_cables_from_placements pls s3 of
                         (Inl e, s4) \<Rightarrow> (Inl e, s4)
                       | (Inr (meshes, ends), s4) \<Rightarrow> (Inr (cyl # meshes, ep # ends), s4))))"

subsection \<open>Scene assembly (build.py)\<close>

datatype MeshGroup = MeshGroup (mg_mesh: mesh_ref) (mg_material_key: string)

text \<open>Lines 27 to 40: the groups are appended one by one, in three loops.\<close>

definition collect_mesh_groups ::
  "ClusterConfig \<Rightarrow> mesh_ref \<Rightarrow> mesh_ref \<Rightarrow> mesh_ref list \<Rightarrow> PendantPlacement list \<Rightarrow> MeshGroup list" where
  "collect_mesh_groups config bottom_mesh top_mesh cable_meshes placements =
     (let g0 = [];
          g1 = g0 @ [MeshGroup bottom_mesh (canopy_appearance config)];
          g2 = g1 @ [MeshGroup top_mesh (canopy_appearance config)];
          g3 = fold (\<lambda>cm groups. groups @ [MeshGroup cm (cable_appearance config)]) cable_meshes g2
      in fold (\<lambda>pl groups.
                 fold (\<lambda>pm groups. groups @ [MeshGroup pm (pendant_appearance (pl_pendant pl))])
                      (pl_meshes pl) groups)
              placements g3)"

text \<open>Lines 43 to 47: the keys, each appended when it is not in the list yet.\<close>

definition unique_material_keys :: "MeshGroup list \<Rightarrow> string list" where
  "unique_material_keys mesh_groups =
     fold (\<lambda>mg material_keys.
             let k = mg_material_key mg
             in if k \<notin> set material_keys then material_keys @ [k] else material_keys)
          mesh_groups []"

definition build_mesh_groups ::
  "'g env \<Rightarrow> ClusterConfig \<Rightarrow> state \<Rightarrow> (error + MeshGroup list \<times> string list) \<times> state" where
  "build_mesh_groups env config s =
     (let n = length (pendants config)
      in case build_canopy (canopy_size config) (int n) (cluster_type config) s of
           (Inl e, s1) \<Rightarrow> (Inl e, s1)
         | (Inr (bottom_mesh, top_mesh, connection_points), s1) \<Rightarrow>
             (case place_pendants_then_plan_cables env config connection_points s1 of
                (Inl e, s2) \<Rightarrow> (Inl e, s2)
              | (Inr placements, s2) \<Rightarrow>
                  (case build_cables_from_placements placements s2 of
                     (Inl e, s3) \<Rightarrow> (Inl e, s3)
                   | (Inr (cable_meshes, ends), s3) \<Rightarrow>
                       (let mesh_groups = collect_mesh_groups config bottom_mesh top_mesh cable_meshes
                                            placements
                        in (Inr (mesh_groups, unique_material_keys mesh_groups), s3)))))"

subsection \<open>What a call leaves in the store\<close>

text \<open>
  Predicates and value-level functions used to state what the stateful functions do.
  \<open>same_caches\<close>: a step that touches neither cache. \<open>grows s s'\<close>: every object of
  \<open>s\<close> is still there and every cache entry of \<open>s\<close> is still the same entry.
\<close>

definition same_caches :: "state \<Rightarrow> state \<Rightarrow> bool" where
  "same_caches s s' \<longleftrightarrow> load_cache s' = load_cache s \<and> extents_cache s' = extents_cache s"

text \<open>
  The meshes and the extents that a pendant file gives, as values: what
  \<^verbatim>\<open>_load_pendant_meshes\<close> and \<^verbatim>\<open>_pendant_extents\<close> compute on a cache miss.
\<close>

definition template_meshes :: "'g env \<Rightarrow> string \<Rightarrow> error + mesh list" where
  "template_meshes env model_key =
     (case get_pendant_path model_key of
        Inl e \<Rightarrow> Inl e
      | Inr path \<Rightarrow> (case File3dm_Read env path of None \<Rightarrow> Inl AttributeError | Some ms \<Rightarrow> Inr ms))"

definition template_extents :: "'g env \<Rightarrow> string \<Rightarrow> error + real \<times> real" where
  "template_extents env model_key =
     (case template_meshes env model_key of Inl e \<Rightarrow> Inl e | Inr ms \<Rightarrow> extents_of_meshes ms)"

text \<open>
  A consistent store: every cached template refers to existing objects that hold
  exactly the meshes of its file, and every cached extent is the extent of its file.
\<close>

definition store_ok :: "'g env \<Rightarrow> state \<Rightarrow> bool" where
  "store_ok env s \<longleftrightarrow>
     (\<forall>k refs. load_cache s k = Some refs \<longrightarrow>
        (\<forall>r\<in>set refs. r < length (heap s)) \<and> template_meshes env k = Inr (map (\<lambda>r. heap s ! r) refs))
   \<and> (\<forall>k e. extents_cache s k = Some e \<longrightarrow> template_extents env k = Inr e)"

definition grows :: "state \<Rightarrow> state \<Rightarrow> bool" where
  "grows s s' \<longleftrightarrow>
     (\<exists>zs. heap s' = heap s @ zs)
   \<and> (\<forall>k refs. load_cache s k = Some refs \<longrightarrow> load_cache s' k = Some refs)
   \<and> (\<forall>k e. extents_cache s k = Some e \<longrightarrow> extents_cache s' k = Some e)"

text \<open>The extents and template meshes of all pendants, in configuration order.\<close>

fun template_data :: "'g env \<Rightarrow> PendantConfig list \<Rightarrow> error + real list \<times> real list \<times> mesh list list" where
  "template_data env [] = Inr ([], [], [])"
| "template_data env (p # ps) =
     (case template_extents env (pendant_model p) of
        Inl e \<Rightarrow> Inl e
      | Inr (t, b) \<Rightarrow>
          (case template_meshes env (pendant_model p) of
             Inl e \<Rightarrow> Inl e
           | Inr ms \<Rightarrow>
               (case template_data env ps of
                  Inl e \<Rightarrow> Inl e
                | Inr (tops, bottoms, mss) \<Rightarrow> Inr (t # tops, b # bottoms, ms # mss))))"

text \<open>
  A placement with its meshes as values, and the placements that the planner computes,
  as a function of the environment, the configuration and the attachment points alone.
\<close>

record PlacementValue =
  pv_pendant :: PendantConfig
  pv_start :: point3d
  pv_end :: point3d
  pv_meshes :: "mesh list"

definition placement_value :: "state \<Rightarrow> PendantPlacement \<Rightarrow> PlacementValue" where
  "placement_value s pl =
     \<lparr>pv_pendant = pl_pendant pl, pv_start = pl_start pl, pv_end = pl_end pl,
      pv_meshes = map (\<lambda>r. heap s ! r) (pl_meshes pl)\<rparr>"

fun planned_loop ::
  "'g env \<Rightarrow> PendantConfig list \<Rightarrow> point3d list \<Rightarrow> nat list \<Rightarrow> real list \<Rightarrow> mesh list list
     \<Rightarrow> nat list \<Rightarrow> 'g \<Rightarrow> error + PlacementValue list" where
  "planned_loop env ps connection_points indices drops mss [] rng = Inr []"
| "planned_loop env ps connection_points indices drops mss (i # is) rng =
     (if length indices \<le> i \<or> length connection_points \<le> indices ! i then Inl IndexError
      else
        (let sp = connection_points ! (indices ! i);
             drop = drops ! i;
             ep = Point3d (X sp) (Y sp) (Z sp - drop);
             (r, rng1) = rng_random env rng;
             twist = r * (2 * pi);
             rot = Rotation twist (Vector3d 0 0 1) (Point3d 0 0 0);
             tr = Translation (X ep) (Y ep) (Z ep)
         in case planned_loop env ps connection_points indices drops mss is rng1 of
              Inl e \<Rightarrow> Inl e
            | Inr rest \<Rightarrow>
                Inr (\<lparr>pv_pendant = ps ! i, pv_start = sp, pv_end = ep,
                      pv_meshes = map (\<lambda>m. transform_mesh tr (transform_mesh rot m)) (mss ! i)\<rparr>
                     # rest)))"

definition planned_placements :: "'g env \<Rightarrow> ClusterConfig \<Rightarrow> point3d list \<Rightarrow> error + PlacementValue list" where
  "planned_placements env config connection_points =
     (let n = length (pendants config);
          rng = new_Random env (random_seed config)
      in case template_data env (pendants config) of
           Inl e \<Rightarrow> Inl e
         | Inr (tops, bottoms, mss) \<Rightarrow>
             (case plan_drops n (first_drop_mm config) (total_drop_mm config) tops bottoms of
                Inl e \<Rightarrow> Inl e
              | Inr (gap, drops) \<Rightarrow>
                  (case assignment_indices env n (cluster_type config) connection_points rng of
                     Inl e \<Rightarrow> Inl e
                   | Inr (indices, rng1) \<Rightarrow>
                       planned_loop env (pendants config) connection_points indices drops mss
                         [0..<n] rng1)))"

subsection \<open>A small configuration\<close>

text \<open>
  Two pendant files with one triangle each (extents 100 and 150 above and below the
  origin), a generator that always draws \<open>0\<close> and reverses on shuffle, and a
  configuration of two pendants on a small canopy with a centre point.
\<close>

definition ex_template :: mesh where
  "ex_template = \<lparr>Vertices = [Point3d 0 0 100, Point3d 10 0 (- 100), Point3d 0 10 0],
                  Faces = [FaceSeq [0, 1, 2, 2]]\<rparr>"

definition ex_template_tall :: mesh where
  "ex_template_tall = \<lparr>Vertices = [Point3d 0 0 150, Point3d 10 0 (- 150), Point3d 0 10 0],
                       Faces = [FaceSeq [0, 1, 2, 2]]\<rparr>"

definition ex_env :: "nat env" where
  "ex_env = \<lparr>File3dm_Read = (\<lambda>path. if path = ''Denny.3dm'' then Some [ex_template]
                                    else if path = ''Alki.3dm'' then Some [ex_template_tall]
                                    else None),
             new_Random = (\<lambda>seed. nat seed),
             rng_random = (\<lambda>g. (0, Suc g)),
             rng_shuffle = (\<lambda>g xs. (rev xs, Suc g))\<rparr>"

definition ex_config :: ClusterConfig where
  "ex_config = \<lparr>canopy_size = ''s'', canopy_appearance = ''canopy_black'',
                cable_appearance = ''cable_black'', cluster_type = Some RING_WITH_CENTER,
                first_drop_mm = 100, total_drop_mm = 200,
                pendants = [\<lparr>pendant_model = ''denny'', pendant_appearance = ''shade_natural''\<rparr>,
                            \<lparr>pendant_model = ''denny'', pendant_appearance = ''shade_white''\<rparr>],
                random_seed = 0\<rparr>"

definition ex_points :: "point3d list" where
  "ex_points = [Point3d 110 0 (- 40), Point3d 0 0 (- 40)]"

text \<open>The store after one planning call on the small configuration from a fresh process.\<close>

definition ex_state1 :: state where
  "ex_state1 = \<lparr>heap = [ex_template, ex_template, ex_template,
                 transform_mesh (Translation 110 0 (- 140))
                   (transform_mesh (Rotation 0 (Vector3d 0 0 1) (Point3d 0 0 0)) ex_template),
                 transform_mesh (Translation 0 0 (- 40))
                   (transform_mesh (Rotation 0 (Vector3d 0 0 1) (Point3d 0 0 0)) ex_template)],
         load_cache = (\<lambda>k. None)(''denny'' \<mapsto> [0]),
         extents_cache = (\<lambda>k. None)(''denny'' \<mapsto> (100, 100))\<rparr>"

text \<open>The same configuration with two taller pendants, 300 high for a total drop of 200.\<close>

definition ex_config_tall :: ClusterConfig where
  "ex_config_tall = ex_config\<lparr>pendants :=
      [\<lparr>pendant_model = ''alki'', pendant_appearance = ''shade_natural''\<rparr>,
       \<lparr>pendant_model = ''alki'', pendant_appearance = ''shade_white''\<rparr>]\<rparr>"

subsection \<open>The cable of a placement, as a value\<close>

text \<open>
  The test of line 234 of \<^verbatim>\<open>build_cables_from_placements\<close> and the mesh value that lines 236 to
  243 leave in the store for a placement that passes it and for whose segment \<^verbatim>\<open>_rotation_from_z\<close>
  returns a transform, written on the start and end points; used to state what the loop does to
  the store.
\<close>

definition has_cable :: "point3d \<Rightarrow> point3d \<Rightarrow> bool" where
  "has_cable sp ep \<longleftrightarrow>
     \<not> vec_length (Vector3d (X ep - X sp) (Y ep - Y sp) (Z ep - Z sp)) < 1 / 10 ^ 6"

definition cable_value :: "point3d \<Rightarrow> point3d \<Rightarrow> mesh" where
  "cable_value sp ep =
     (let d = Vector3d (X ep - X sp) (Y ep - Y sp) (Z ep - Z sp)
      in transform_mesh (Translation (X sp) (Y sp) (Z sp))
           (transform_mesh (the_transform (rotation_from_z d))
              (cylinder_mesh CABLE_RADIUS_MM (vec_length d) 32)))"

subsection \<open>The objects of the small configuration\<close>

text \<open>
  The store after each stage of \<^verbatim>\<open>build_mesh_groups\<close> on \<open>ex_config\<close> from a fresh process:
  objects 0 and 1 are the canopy discs, 2 the cached template, 3 and 4 the working copies, 5 and 6
  the placed pendants, 7 the one cable (the second placement has none).
\<close>

definition ex_canopy_bottom :: mesh where
  "ex_canopy_bottom = transform_mesh (Translation 0 0 (- 40)) (cylinder_mesh 150 (3 / 2) 96)"

definition ex_canopy_top :: mesh where
  "ex_canopy_top = transform_mesh (Translation 0 0 (- (40 - 3 / 2))) (cylinder_mesh (130 + 3 / 2) (40 - 3 / 2) 96)"

definition ex_pendant0 :: mesh where
  "ex_pendant0 = transform_mesh (Translation 110 0 (- 140))
                   (transform_mesh (Rotation 0 (Vector3d 0 0 1) (Point3d 0 0 0)) ex_template)"

definition ex_pendant1 :: mesh where
  "ex_pendant1 = transform_mesh (Translation 0 0 (- 40))
                   (transform_mesh (Rotation 0 (Vector3d 0 0 1) (Point3d 0 0 0)) ex_template)"

definition ex_cable0 :: mesh where
  "ex_cable0 = transform_mesh (Translation 110 0 (- 40))
                 (transform_mesh (Rotation pi (Vector3d 1 0 0) (Point3d 0 0 0))
                    (cylinder_mesh CABLE_RADIUS_MM 100 32))"

definition ex_state_canopy :: state where
  "ex_state_canopy = \<lparr>heap = [ex_canopy_bottom, ex_canopy_top],
                        load_cache = (\<lambda>k. None), extents_cache = (\<lambda>k. None)\<rparr>"

definition ex_state_placed :: state where
  "ex_state_placed = \<lparr>heap = [ex_canopy_bottom, ex_canopy_top, ex_template, ex_template, ex_template,
                                ex_pendant0, ex_pendant1],
                        load_cache = (\<lambda>k. None)(''denny'' \<mapsto> [2]),
                        extents_cache = (\<lambda>k. None)(''denny'' \<mapsto> (100, 100))\<rparr>"

definition ex_placement0 :: PendantPlacement where
  "ex_placement0 = \<lparr>pl_pendant = \<lparr>pendant_model = ''denny'', pendant_appearance = ''shade_natural''\<rparr>,
                     pl_start = Point3d 110 0 (- 40), pl_end = Point3d 110 0 (- 140), pl_meshes = [5]\<rparr>"

definition ex_placement1 :: PendantPlacement where
  "ex_placement1 = \<lparr>pl_pendant = \<lparr>pendant_model = ''denny'', pendant_appearance = ''shade_white''\<rparr>,
                     pl_start = Point3d 0 0 (- 40), pl_end = Point3d 0 0 (- 40), pl_meshes = [6]\<rparr>"

subsection \<open>Materials (materials.py)\<close>

text \<open>
  JSON values as \<^verbatim>\<open>json.dumps\<close> receives them; a dict keeps its insertion order.
\<close>

datatype json = JInt int | JFloat real | JBool bool | JString string
  | JList "json list" | JDict "(string \<times> json) list"

definition pbr :: "real \<Rightarrow> real \<Rightarrow> real \<Rightarrow> real \<Rightarrow> json" where
  "pbr r g b roughness =
     JDict [(''baseColorFactor'', JList [JFloat r, JFloat g, JFloat b, JFloat 1]),
            (''metallicFactor'', JFloat 0),
            (''roughnessFactor'', JFloat roughness)]"

text \<open>A preset is its \<^verbatim>\<open>name\<close> and its \<^verbatim>\<open>pbrMetallicRoughness\<close> entry.\<close>

definition MATERIAL_PRESETS :: "(string \<times> string \<times> json) list" where
  "MATERIAL_PRESETS =
     [(''canopy_white'', ''CanopyWhite'', pbr (95 / 100) (95 / 100) (95 / 100) (6 / 10)),
      (''canopy_black'', ''CanopyBlack'', pbr (5 / 100) (5 / 100) (5 / 100) (65 / 100)),
      (''cable_white'', ''CableWhite'', pbr (92 / 100) (92 / 100) (92 / 100) (8 / 10)),
      (''cable_black'', ''CableBlack'', pbr (3 / 100) (3 / 100) (3 / 100) (85 / 100)),
      (''shade_white'', ''ShadeWhite'', pbr (82 / 100) (81 / 100) (78 / 100) (95 / 100)),
      (''shade_blonde'', ''ShadeBlonde'', pbr (48 / 100) (40 / 100) (26 / 100) (95 / 100)),
      (''shade_natural'', ''ShadeNatural'', pbr (13 / 100) (9 / 100) (5 / 100) (98 / 100))]"

text \<open>
  What the exporter and \<^verbatim>\<open>get_material_preset\<close> take from Python's library, as functions of
  their arguments: \<open>float32_bytes x\<close> are the four bytes that \<^verbatim>\<open>struct.pack\<close> gives for
  \<open>x\<close> in the little-endian single precision format, or \<open>None\<close> when \<open>x\<close> is too large
  for the format, \<open>json_dumps\<close> is \<^verbatim>\<open>json.dumps\<close> and \<open>str_strip\<close> is
  \<^verbatim>\<open>str.strip\<close> without arguments.
\<close>

record pylib =
  float32_bytes :: "real \<Rightarrow> (byte \<times> byte \<times> byte \<times> byte) option"
  json_dumps :: "json \<Rightarrow> string"
  str_strip :: "string \<Rightarrow> string"

definition get_material_preset :: "pylib \<Rightarrow> string \<Rightarrow> string \<Rightarrow> string \<times> json" where
  "get_material_preset lib key fallback =
     (let key = str_strip lib key
      in case map_of MATERIAL_PRESETS key of
           Some preset \<Rightarrow> preset
         | None \<Rightarrow>
             (case map_of MATERIAL_PRESETS fallback of
                Some preset \<Rightarrow> preset
              | None \<Rightarrow> the (map_of MATERIAL_PRESETS ''shade_natural'')))"

subsection \<open>The exporter (exporter.py, lines 72 to 167)\<close>

text \<open>
  \<^verbatim>\<open>struct.pack\<close> of a list of floats and of a list of unsigned integers; the first value
  that does not fit raises.
\<close>

fun pack_floats :: "pylib \<Rightarrow> real list \<Rightarrow> error + byte list" where
  "pack_floats lib [] = Inr []"
| "pack_floats lib (x # xs) =
     (case float32_bytes lib x of
        None \<Rightarrow> Inl OverflowError
      | Some (b0, b1, b2, b3) \<Rightarrow>
          (case pack_floats lib xs of Inl e \<Rightarrow> Inl e | Inr rest \<Rightarrow> Inr ([b0, b1, b2, b3] @ rest)))"

fun pack_uints :: "nat list \<Rightarrow> error + byte list" where
  "pack_uints [] = Inr []"
| "pack_uints (x # xs) =
     (case pack_I x of
        Inl e \<Rightarrow> Inl e
      | Inr bs \<Rightarrow> (case pack_uints xs of Inl e \<Rightarrow> Inl e | Inr rest \<Rightarrow> Inr (bs @ rest)))"

text \<open>Lines 84 to 93: one material record per key, and the index of each key.\<close>

definition material_def :: "pylib \<Rightarrow> string \<Rightarrow> json" where
  "material_def lib key =
     (let preset = get_material_preset lib key ''shade_natural''
      in JDict [(''name'', JString (fst preset)),
                (''pbrMetallicRoughness'', snd preset),
                (''doubleSided'', JBool True)])"

definition collect_materials :: "pylib \<Rightarrow> string list \<Rightarrow> json list \<times> (string \<Rightarrow> nat option)" where
  "collect_materials lib material_keys =
     fold (\<lambda>key (materials, material_index_map).
             (materials @ [material_def lib key], material_index_map(key \<mapsto> length materials)))
          material_keys ([], (\<lambda>k. None))"

text \<open>
  The five lists that the loop over the mesh groups fills (\<^verbatim>\<open>buffers\<close>,
  \<^verbatim>\<open>buffer_views\<close>, \<^verbatim>\<open>accessors\<close>, \<^verbatim>\<open>meshes_out\<close>, \<^verbatim>\<open>nodes\<close>), and the entries
  it appends to them.
\<close>

record export_lists =
  el_buffers :: "byte list list"
  el_buffer_views :: "json list"
  el_accessors :: "json list"
  el_meshes_out :: "json list"
  el_nodes :: "json list"

definition buffer_view :: "nat \<Rightarrow> nat \<Rightarrow> int \<Rightarrow> json" where
  "buffer_view off len target =
     JDict [(''buffer'', JInt 0), (''byteOffset'', JInt (int off)),
            (''byteLength'', JInt (int len)), (''target'', JInt target)]"

definition accessor :: "nat \<Rightarrow> int \<Rightarrow> nat \<Rightarrow> string \<Rightarrow> json" where
  "accessor view component_type count type_name =
     JDict [(''bufferView'', JInt (int view)), (''componentType'', JInt component_type),
            (''count'', JInt (int count)), (''type'', JString type_name)]"

definition bytes_so_far :: "byte list list \<Rightarrow> nat" where
  "bytes_so_far bs = sum_list (map length bs)"

text \<open>
  The body of the loop over the mesh groups (lines 97 to 143) for one group, given the
  mesh it refers to: a missing key raises first, a mesh without indices is skipped.
\<close>

definition export_group ::
  "pylib \<Rightarrow> (string \<Rightarrow> nat option) \<Rightarrow> mesh \<Rightarrow> string \<Rightarrow> export_lists \<Rightarrow> error + export_lists" where
  "export_group lib material_index_map m key acc =
     (case material_index_map key of
        None \<Rightarrow> Inl KeyError
      | Some mat_index \<Rightarrow>
          (let (positions, uvs, indices) = mesh_to_arrays m (mapping_type_from_material_key key)
           in if indices = [] then Inr acc
              else
                (case pack_floats lib positions of
                   Inl e \<Rightarrow> Inl e
                 | Inr pos_bytes \<Rightarrow>
                (case pack_floats lib uvs of
                   Inl e \<Rightarrow> Inl e
                 | Inr uv_bytes \<Rightarrow>
                (case pack_uints indices of
                   Inl e \<Rightarrow> Inl e
                 | Inr idx_bytes \<Rightarrow>
                     (let pos = pad_to_4 pos_bytes;
                          uv = pad_to_4 uv_bytes;
                          idx = pad_to_4 idx_bytes;
                          pos_off = bytes_so_far (el_buffers acc);
                          b1 = el_buffers acc @ [pos];
                          uv_off = bytes_so_far b1;
                          b2 = b1 @ [uv];
                          idx_off = bytes_so_far b2;
                          b3 = b2 @ [idx];
                          bv_pos = length (el_buffer_views acc);
                          bv_uv = bv_pos + 1;
                          bv_idx = bv_uv + 1;
                          acc_pos = length (el_accessors acc);
                          acc_uv = acc_pos + 1;
                          acc_idx = acc_uv + 1;
                          mesh_entry = JDict [(''primitives'',
                             JList [JDict [(''attributes'',
                                              JDict [(''POSITION'', JInt (int acc_pos)),
                                                     (''TEXCOORD_0'', JInt (int acc_uv))]),
                                           (''indices'', JInt (int acc_idx)),
                                           (''material'', JInt (int mat_index))]])]
                      in Inr \<lparr>el_buffers = b3,
                              el_buffer_views = el_buffer_views acc
                                @ [buffer_view pos_off (length pos) 34962,
                                   buffer_view uv_off (length uv) 34962,
                                   buffer_view idx_off (length idx) 34963],
                              el_accessors = el_accessors acc
                                @ [accessor bv_pos 5126 (length positions div 3) ''VEC3'',
                                   accessor bv_uv 5126 (length uvs div 2) ''VEC2'',
                                   accessor bv_idx 5125 (length indices) ''SCALAR''],
                              el_meshes_out = el_meshes_out acc @ [mesh_entry],
                              el_nodes = el_nodes acc
                                @ [JDict [(''mesh'', JInt (int (length (el_meshes_out acc @ [mesh_entry])) - 1))]]\<rparr>))))))"

fun export_groups ::
  "pylib \<Rightarrow> (string \<Rightarrow> nat option) \<Rightarrow> (mesh \<times> string) list \<Rightarrow> export_lists \<Rightarrow> error + export_lists" where
  "export_groups lib material_index_map [] acc = Inr acc"
| "export_groups lib material_index_map ((m, key) # rest) acc =
     (case export_group lib material_index_map m key acc of
        Inl e \<Rightarrow> Inl e
      | Inr acc' \<Rightarrow> export_groups lib material_index_map rest acc')"

definition gltf_document :: "export_lists \<Rightarrow> json list \<Rightarrow> json" where
  "gltf_document acc materials =
     JDict [(''asset'', JDict [(''version'', JString ''2.0'')]),
            (''scene'', JInt 0),
            (''scenes'', JList [JDict [(''nodes'', JList (map (\<lambda>i. JInt (int i)) [0..<length (el_nodes acc)]))]]),
            (''nodes'', JList (el_nodes acc)),
            (''meshes'', JList (el_meshes_out acc)),
            (''buffers'', JList [JDict [(''byteLength'', JInt (int (bytes_so_far (el_buffers acc))))]]),
            (''bufferViews'', JList (el_buffer_views acc)),
            (''accessors'', JList (el_accessors acc)),
            (''materials'', JList materials)]"

text \<open>
  \<^verbatim>\<open>save_mesh_groups_as_glb\<close>, from the meshes that the groups refer to when it is
  called to the bytes that it writes to the output file.
\<close>

definition save_mesh_values :: "pylib \<Rightarrow> (mesh \<times> string) list \<Rightarrow> string list \<Rightarrow> error + byte list" where
  "save_mesh_values lib groups material_keys =
     (let (materials, material_index_map) = collect_materials lib material_keys
      in case export_groups lib material_index_map groups
                \<lparr>el_buffers = [], el_buffer_views = [], el_accessors = [], el_meshes_out = [], el_nodes = []\<rparr> of
           Inl e \<Rightarrow> Inl e
         | Inr acc \<Rightarrow> write_glb (json_dumps lib (gltf_document acc materials)) (el_buffers acc))"

definition save_mesh_groups_as_glb ::
  "pylib \<Rightarrow> MeshGroup list \<Rightarrow> string list \<Rightarrow> state \<Rightarrow> error + byte list" where
  "save_mesh_groups_as_glb lib mesh_groups material_keys s =
     save_mesh_values lib (map (\<lambda>mg. (heap s ! mg_mesh mg, mg_material_key mg)) mesh_groups)
       material_keys"

text \<open>
  The pipeline of \<^verbatim>\<open>generate_from_code\<close> (api.py, lines 31 to 35) when the file is not
  in the cache yet: the groups are built and then exported.
\<close>

definition build_and_export ::
  "pylib \<Rightarrow> 'g env \<Rightarrow> ClusterConfig \<Rightarrow> state \<Rightarrow> (error + byte list) \<times> state" where
  "build_and_export lib env config s =
     (case build_mesh_groups env config s of
        (Inl e, s') \<Rightarrow> (Inl e, s')
      | (Inr (mesh_groups, material_keys), s') \<Rightarrow>
          (save_mesh_groups_as_glb lib mesh_groups material_keys s', s'))"

subsection \<open>The scene as a value\<close>

text \<open>
  What \<^verbatim>\<open>build_mesh_groups\<close> returns, with every mesh reference replaced by the mesh it
  refers to, written as a function of the environment and the configuration alone: the two canopy
  discs, one cable per placement that gets one (\<^verbatim>\<open>TypeError\<close> when a segment that gets a
  cable makes \<^verbatim>\<open>_rotation_from_z\<close> return the method object), the pendant meshes of every
  placement, and the keys in first-seen order. \<open>planned_export\<close> are the bytes that the exporter
  makes of that scene.
\<close>

definition canopy_values :: "canopy_spec \<Rightarrow> mesh list" where
  "canopy_values spec =
     [transform_mesh (Translation 0 0 (- height_mm spec))
        (cylinder_mesh (outer_radius_mm spec) (plate_thickness_mm spec) 96),
      transform_mesh (Translation 0 0 (- (height_mm spec - plate_thickness_mm spec)))
        (cylinder_mesh (inner_radius_mm spec + plate_thickness_mm spec)
           (height_mm spec - plate_thickness_mm spec) 96)]"

definition group_values :: "state \<Rightarrow> MeshGroup list \<Rightarrow> (mesh \<times> string) list" where
  "group_values s mesh_groups = map (\<lambda>mg. (heap s ! mg_mesh mg, mg_material_key mg)) mesh_groups"

definition points_up :: "point3d \<Rightarrow> point3d \<Rightarrow> bool" where
  "points_up sp ep \<longleftrightarrow>
     rotation_from_z (Vector3d (X ep - X sp) (Y ep - Y sp) (Z ep - Z sp)) = Identity_method"

definition planned_groups :: "ClusterConfig \<Rightarrow> canopy_spec \<Rightarrow> PlacementValue list \<Rightarrow> (mesh \<times> string) list" where
  "planned_groups config spec pvs =
     map (\<lambda>m. (m, canopy_appearance config)) (canopy_values spec)
     @ map (\<lambda>pv. (cable_value (pv_start pv) (pv_end pv), cable_appearance config))
           (filter (\<lambda>pv. has_cable (pv_start pv) (pv_end pv)) pvs)
     @ concat (map (\<lambda>pv. map (\<lambda>m. (m, pendant_appearance (pv_pendant pv))) (pv_meshes pv)) pvs)"

definition planned_scene :: "'g env \<Rightarrow> ClusterConfig \<Rightarrow> error + (mesh \<times> string) list \<times> string list" where
  "planned_scene env config =
     (case CANOPY_SPECS (canopy_size config) of
        None \<Rightarrow> Inl KeyError
      | Some spec \<Rightarrow>
          (case planned_placements env config
                  (canopy_points spec (int (length (pendants config))) (cluster_type config)) of
             Inl e \<Rightarrow> Inl e
           | Inr pvs \<Rightarrow>
               (if \<exists>pv\<in>set pvs. has_cable (pv_start pv) (pv_end pv) \<and> points_up (pv_start pv) (pv_end pv)
                then Inl TypeError
                else
                  (let groups = planned_groups config spec pvs
                   in Inr (groups, rev (remdups (rev (map snd groups))))))))"

definition planned_export :: "pylib \<Rightarrow> 'g env \<Rightarrow> ClusterConfig \<Rightarrow> error + byte list" where
  "planned_export lib env config =
     (case planned_scene env config of
        Inl e \<Rightarrow> Inl e
      | Inr (groups, material_keys) \<Rightarrow> save_mesh_values lib groups material_keys)"

text \<open>The result of a planning call with its meshes read from the store the call leaves.\<close>

definition placements_of :: "(error + PendantPlacement list) \<times> state \<Rightarrow> error + PlacementValue list" where
  "placements_of run = map_sum id (map (placement_value (snd run))) (fst run)"

subsection \<open>Drop planning: the closed forms\<close>

lemma occupied_fold:
  "fold (\<lambda>i occupied. occupied + (bottoms ! i + tops ! (i + 1))) [0..<k] a =
     a + (\<Sum>i<k. bottoms ! i + tops ! (i + 1))"
  by (induction k) (simp_all add: add.assoc)

lemma occupied_clearance_sum:
  assumes "length bottoms = n" and "1 \<le> n"
  shows "occupied_clearance n tops bottoms =
     tops ! 0 + bottoms ! (n - 1) + (\<Sum>i<n - 1. bottoms ! i + tops ! (i + 1))"
proof -
  from assms have "bottoms \<noteq> []" by auto
  then have "last bottoms = bottoms ! (n - 1)"
    using assms by (simp add: last_conv_nth)
  then show ?thesis
    unfolding occupied_clearance_def occupied_fold by simp
qed

lemma drops_fold_length:
  "length (fold (\<lambda>i drops. drops @ [last drops + bottoms ! i + tops ! (i + 1) + gap]) [0..<k] [first])
     = Suc k"
  by (induction k) simp_all

lemma drops_fold_nth:
  "i \<le> k \<Longrightarrow>
   fold (\<lambda>i drops. drops @ [last drops + bottoms ! i + tops ! (i + 1) + gap]) [0..<k] [first] ! i
     = first + (\<Sum>j<i. bottoms ! j + tops ! (j + 1) + gap)"
proof (induction k arbitrary: i)
  case 0
  then show ?case by simp
next
  case (Suc k)
  let ?ds = "fold (\<lambda>i drops. drops @ [last drops + bottoms ! i + tops ! (i + 1) + gap]) [0..<k] [first]"
  have len: "length ?ds = Suc k" by (rule drops_fold_length)
  then have ne: "?ds \<noteq> []" by auto
  have lst: "last ?ds = ?ds ! k"
    using ne len by (simp add: last_conv_nth)
  show ?case
  proof (cases "i \<le> k")
    case True
    then show ?thesis
      using Suc.IH [of i] len by (simp add: nth_append)
  next
    case False
    with Suc.prems have "i = Suc k" by simp
    then show ?thesis
      using Suc.IH [of k] len lst by (simp add: nth_append algebra_simps)
  qed
qed


lemma drops_of_nth:
  "i \<le> n - 1 \<Longrightarrow>
   drops_of n first tops bottoms gap ! i = first + (\<Sum>j<i. bottoms ! j + tops ! (j + 1) + gap)"
  unfolding drops_of_def by (rule drops_fold_nth)

subsection \<open>Claims about drop planning\<close>



text \<open>
  C3. Layout conservation: with more than one pendant and a slack that is not negative,
  the first drop, the occupied clearance and the \<open>n - 1\<close> gaps add up to the total
  drop; in terms of the planned drops, the deepest pendant's drop plus the top extent of
  the first pendant and the bottom extent of the last one is the total drop.
\<close>

theorem layout_conservation:
  assumes "length tops = n" and "length bottoms = n" and "1 < n"
    and "0 \<le> real_of_int total_mm - real_of_int first_mm
              - (tops ! 0 + bottoms ! (n - 1) + (\<Sum>i<n - 1. bottoms ! i + tops ! (i + 1)))"
    and "plan_drops n first_mm total_mm tops bottoms = Inr (gap, drops)"
  shows "real_of_int first_mm
           + (tops ! 0 + bottoms ! (n - 1) + (\<Sum>i<n - 1. bottoms ! i + tops ! (i + 1)))
           + real (n - 1) * gap
         = real_of_int total_mm
       \<and> drops ! (n - 1) + tops ! 0 + bottoms ! (n - 1) = real_of_int total_mm"
proof -
  define occ where "occ = tops ! 0 + bottoms ! (n - 1) + (\<Sum>i<n - 1. bottoms ! i + tops ! (i + 1))"
  from assms have ne: "tops \<noteq> []" "bottoms \<noteq> []" by auto
  have occ: "occupied_clearance n tops bottoms = occ"
    unfolding occ_def using assms by (rule_tac occupied_clearance_sum) simp_all
  from assms(5) ne have gap: "gap = gap_of n (real_of_int total_mm - real_of_int first_mm) occ"
    by (simp add: plan_drops_def Let_def occ)
  from assms(5) ne have drops: "drops = drops_of n (real_of_int first_mm) tops bottoms gap"
    unfolding gap by (simp add: plan_drops_def Let_def occ)
  from \<open>1 < n\<close> have pos: "real (n - 1) \<noteq> 0" by simp
  have g: "real (n - 1) * gap = real_of_int total_mm - real_of_int first_mm - occ"
    using \<open>1 < n\<close> pos by (simp add: gap gap_of_def)
  have first: "real_of_int first_mm + occ + real (n - 1) * gap = real_of_int total_mm"
    using g by simp
  have "drops ! (n - 1) = real_of_int first_mm + (\<Sum>j<n - 1. bottoms ! j + tops ! (j + 1) + gap)"
    unfolding drops by (rule drops_of_nth) simp
  also have "(\<Sum>j<n - 1. bottoms ! j + tops ! (j + 1) + gap)
      = (\<Sum>j<n - 1. bottoms ! j + tops ! (j + 1)) + real (n - 1) * gap"
    by (simp add: sum.distrib)
  finally have "drops ! (n - 1) + tops ! 0 + bottoms ! (n - 1) = real_of_int first_mm + occ + real (n - 1) * gap"
    by (simp add: occ_def)
  with first show ?thesis unfolding occ_def by simp
qed

theorem layout_conservation_witness:
  "length [10, 20 :: real] = 2 \<and> length [30, 40 :: real] = 2 \<and> (1::nat) < 2
   \<and> (0::real) \<le> 1000 - 100 - (10 + 40 + (30 + 20))
   \<and> plan_drops 2 100 1000 [10, 20] [30, 40] = Inr (800, [100, 950])
   \<and> (100::real) + (10 + 40 + (30 + 20)) + 1 * 800 = 1000
   \<and> [100, 950 :: real] ! 1 + 10 + 40 = 1000"
proof -
  have up: "[0..<2 - 1] = [0]" by (simp add: upt_rec)
  have run: "plan_drops 2 100 1000 [10, 20] [30, 40] = Inr (800, [100, 950])"
    by (simp add: plan_drops_def Let_def occupied_clearance_def gap_of_def drops_of_def up)
  have slack: "0 \<le> real_of_int 1000 - real_of_int 100
              - ([10, 20] ! 0 + [30, 40] ! (2 - 1) + (\<Sum>i<(2::nat) - 1. [30, 40] ! i + [10, 20] ! (i + 1)))"
    by simp
  from layout_conservation [OF _ _ _ slack run] show ?thesis
    using run by simp
qed

subsection \<open>Canopy attachment points\<close>

lemma CANOPY_SPECS_cases:
  "CANOPY_SPECS k = Some spec \<Longrightarrow>
     inner_radius_mm spec - cable_offset_mm spec \<in> {110, 250, 400} \<and> height_mm spec = 40"
  by (auto simp: CANOPY_SPECS_def split: if_splits)

lemma build_canopy_fst:
  "fst (build_canopy k n ct s) =
     (case CANOPY_SPECS k of None \<Rightarrow> Inl KeyError
      | Some spec \<Rightarrow> Inr (length (heap s), Suc (length (heap s)), canopy_points spec n ct))"
  by (simp add: build_canopy_def create_cylinder_mesh_def alloc_def Transform_def Let_def
      split: option.split)

lemma canopy_points_ring:
  assumes "ct = Some RING" and "1 \<le> n"
  shows "canopy_points spec n ct =
     map (\<lambda>i. Point3d ((inner_radius_mm spec - cable_offset_mm spec) * cos (2 * pi * real i / real_of_int n))
                       ((inner_radius_mm spec - cable_offset_mm spec) * sin (2 * pi * real i / real_of_int n))
                       (- height_mm spec)) [0..<nat n]"
  using assms by (simp add: canopy_points_def Let_def max_def)

lemma canopy_points_center:
  assumes "ct = Some RING_WITH_CENTER \<or> ct = Some RANDOM_RING" and "1 \<le> n"
  shows "canopy_points spec n ct =
     map (\<lambda>i. Point3d ((inner_radius_mm spec - cable_offset_mm spec) * cos (2 * pi * real i / real_of_int (max 1 (n - 1))))
                       ((inner_radius_mm spec - cable_offset_mm spec) * sin (2 * pi * real i / real_of_int (max 1 (n - 1))))
                       (- height_mm spec)) [0..<nat (n - 1)]
     @ [Point3d 0 0 (- height_mm spec)]"
  using assms by (auto simp add: canopy_points_def Let_def max_def)

lemma cos_sin_not_both_zero: "\<not> (cos a = 0 \<and> sin a = (0::real))"
proof
  assume "cos a = 0 \<and> sin a = 0"
  then have "(sin a)\<^sup>2 + (cos a)\<^sup>2 = 0" by simp
  then show False by simp
qed

text \<open>
  C4. The attachment points returned by \<open>build_canopy\<close> for at least one pendant (the
  codec refuses a configuration without pendants). Ring: exactly \<open>n\<close> points, point
  \<open>i\<close> at angle \<open>2 pi i / n\<close> on the circle of radius inner radius minus cable
  offset, none of them the centre. Ring with centre and random ring: exactly \<open>n\<close>
  points, the first \<open>n - 1\<close> at angle \<open>2 pi i / (n - 1)\<close> on that circle, the last
  one the centre; for \<open>n = 1\<close> the centre alone. Every point has the canopy's base
  height \<open>- height\<close>.
\<close>

theorem build_canopy_attachment_points:
  assumes "build_canopy size_key n ct s = (Inr (bottom_mesh, top_mesh, pts), s')"
    and "CANOPY_SPECS size_key = Some spec"
    and "1 \<le> n"
  shows "let r = inner_radius_mm spec - cable_offset_mm spec; zc = - height_mm spec in
      (ct = Some RING \<longrightarrow>
         length pts = nat n
       \<and> (\<forall>i<nat n. pts ! i = Point3d (r * cos (2 * pi * real i / real_of_int n))
                                       (r * sin (2 * pi * real i / real_of_int n)) zc)
       \<and> Point3d 0 0 zc \<notin> set pts)
    \<and> (ct = Some RING_WITH_CENTER \<or> ct = Some RANDOM_RING \<longrightarrow>
         length pts = nat n
       \<and> (\<forall>i<nat n - 1. pts ! i = Point3d (r * cos (2 * pi * real i / real_of_int (n - 1)))
                                           (r * sin (2 * pi * real i / real_of_int (n - 1))) zc)
       \<and> pts ! (nat n - 1) = Point3d 0 0 zc
       \<and> (n = 1 \<longrightarrow> pts = [Point3d 0 0 zc]))
    \<and> (\<forall>p\<in>set pts. Z p = zc)"
proof -
  define r where "r = inner_radius_mm spec - cable_offset_mm spec"
  define zc where "zc = - height_mm spec"
  have "fst (build_canopy size_key n ct s) = Inr (bottom_mesh, top_mesh, pts)"
    using assms(1) by simp
  then have pts: "pts = canopy_points spec n ct"
    using assms(2) by (simp add: build_canopy_fst)
  have r0: "r \<noteq> 0"
    using CANOPY_SPECS_cases [OF assms(2)] by (auto simp: r_def)
  have ring: "length pts = nat n
       \<and> (\<forall>i<nat n. pts ! i = Point3d (r * cos (2 * pi * real i / real_of_int n))
                                       (r * sin (2 * pi * real i / real_of_int n)) zc)
       \<and> Point3d 0 0 zc \<notin> set pts" if "ct = Some RING"
  proof -
    have eq: "pts = map (\<lambda>i. Point3d (r * cos (2 * pi * real i / real_of_int n))
                       (r * sin (2 * pi * real i / real_of_int n)) zc) [0..<nat n]"
      unfolding pts r_def zc_def using that assms(3) by (rule canopy_points_ring)
    have "Point3d 0 0 zc \<notin> set pts"
      unfolding eq using r0 cos_sin_not_both_zero by auto
    then show ?thesis using eq by simp
  qed
  have center: "length pts = nat n
       \<and> (\<forall>i<nat n - 1. pts ! i = Point3d (r * cos (2 * pi * real i / real_of_int (n - 1)))
                                           (r * sin (2 * pi * real i / real_of_int (n - 1))) zc)
       \<and> pts ! (nat n - 1) = Point3d 0 0 zc
       \<and> (n = 1 \<longrightarrow> pts = [Point3d 0 0 zc])"
    if "ct = Some RING_WITH_CENTER \<or> ct = Some RANDOM_RING"
  proof -
    have eq: "pts = map (\<lambda>i. Point3d (r * cos (2 * pi * real i / real_of_int (max 1 (n - 1))))
                       (r * sin (2 * pi * real i / real_of_int (max 1 (n - 1)))) zc) [0..<nat (n - 1)]
        @ [Point3d 0 0 zc]"
      unfolding pts r_def zc_def using that assms(3) by (rule canopy_points_center)
    have n1: "nat (n - 1) = nat n - 1" by simp
    have len: "length pts = nat n" using assms(3) by (simp add: eq)
    have last: "pts ! (nat n - 1) = Point3d 0 0 zc"
      by (simp add: eq nth_append n1)
    have one: "n = 1 \<longrightarrow> pts = [Point3d 0 0 zc]" by (simp add: eq)
    have ringpts: "pts ! i = Point3d (r * cos (2 * pi * real i / real_of_int (n - 1)))
                                     (r * sin (2 * pi * real i / real_of_int (n - 1))) zc"
      if "i < nat n - 1" for i
    proof -
      from that have "2 \<le> n" by simp
      then have "max 1 (n - 1) = n - 1" by simp
      then show ?thesis using that by (simp add: eq nth_append n1)
    qed
    from len last one ringpts show ?thesis by blast
  qed
  have z: "\<forall>p\<in>set pts. Z p = zc"
    by (auto simp: pts canopy_points_def Let_def zc_def)
  from ring center z show ?thesis
    unfolding Let_def r_def [symmetric] zc_def [symmetric] by blast
qed

theorem build_canopy_attachment_points_witness:
  "build_canopy ''m'' 3 (Some RING_WITH_CENTER) init_state
     = (Inr (0, 1, canopy_points (the (CANOPY_SPECS ''m'')) 3 (Some RING_WITH_CENTER)),
        snd (build_canopy ''m'' 3 (Some RING_WITH_CENTER) init_state))
   \<and> CANOPY_SPECS ''m'' = Some (the (CANOPY_SPECS ''m''))
   \<and> (1::int) \<le> 3
   \<and> canopy_points (the (CANOPY_SPECS ''m'')) 3 (Some RING_WITH_CENTER)
       = [Point3d 250 0 (- 40), Point3d (- 250) 0 (- 40), Point3d 0 0 (- 40)]"
proof -
  have spec: "CANOPY_SPECS ''m'' = Some (the (CANOPY_SPECS ''m''))"
    by (simp add: CANOPY_SPECS_def)
  have vals: "inner_radius_mm (the (CANOPY_SPECS ''m'')) - cable_offset_mm (the (CANOPY_SPECS ''m'')) = 250"
     "height_mm (the (CANOPY_SPECS ''m'')) = 40"
    by (simp_all add: CANOPY_SPECS_def)
  have run: "build_canopy ''m'' 3 (Some RING_WITH_CENTER) init_state
     = (Inr (0, 1, canopy_points (the (CANOPY_SPECS ''m'')) 3 (Some RING_WITH_CENTER)),
        snd (build_canopy ''m'' 3 (Some RING_WITH_CENTER) init_state))"
    using build_canopy_fst [of "''m''" 3 "Some RING_WITH_CENTER" init_state] spec
    by (simp add: prod_eq_iff init_state_def split: option.splits)
  have three: "nat 3 = Suc (Suc (Suc 0))" by simp
  note inst = build_canopy_attachment_points [OF run spec, unfolded Let_def vals]
  have len: "length (canopy_points (the (CANOPY_SPECS ''m'')) 3 (Some RING_WITH_CENTER)) = 3"
    using inst by simp
  have p0: "canopy_points (the (CANOPY_SPECS ''m'')) 3 (Some RING_WITH_CENTER) ! 0 = Point3d 250 0 (- 40)"
    using inst by (simp add: three)
  have p1: "canopy_points (the (CANOPY_SPECS ''m'')) 3 (Some RING_WITH_CENTER) ! 1 = Point3d (- 250) 0 (- 40)"
    using inst by (simp add: three)
  have p2: "canopy_points (the (CANOPY_SPECS ''m'')) 3 (Some RING_WITH_CENTER) ! 2 = Point3d 0 0 (- 40)"
    using inst by (simp add: three)
  have "canopy_points (the (CANOPY_SPECS ''m'')) 3 (Some RING_WITH_CENTER)
       = [Point3d 250 0 (- 40), Point3d (- 250) 0 (- 40), Point3d 0 0 (- 40)]"
    using len p0 p1 p2 by (intro nth_equalityI) (auto simp: less_Suc_eq numeral_3_eq_3 numeral_2_eq_2)
  with run spec show ?thesis by simp
qed

subsection \<open>Container framing\<close>







lemma length_le_bytes [simp]: "length (le_bytes_u32 x) = 4"
  by (simp add: le_bytes_u32_def)

lemma length_encode_utf8 [simp]: "length (encode_utf8 str) = length str"
  by (simp add: encode_utf8_def)


lemma write_glb_returns:
  assumes "12 + 8 + length (pad_json_to_4 gltf_json) + 8 + length (pad_to_4 (concat buffers)) < 2 ^ 32"
  shows "\<exists>file. write_glb gltf_json buffers = Inr file"
  using assms by (simp add: write_glb_def Let_def pack_I_def)



subsection \<open>UV mapping\<close>


subsection \<open>Scene assembly: closed forms\<close>

lemma fold_append_each: "fold (\<lambda>x acc. acc @ [f x]) xs acc = acc @ map f xs"
  by (induction xs arbitrary: acc) simp_all

lemma fold_append_nested:
  "fold (\<lambda>pl groups. fold (\<lambda>pm groups. groups @ [f pl pm]) (g pl) groups) pls acc
     = acc @ concat (map (\<lambda>pl. map (f pl) (g pl)) pls)"
  by (induction pls arbitrary: acc) (simp_all add: fold_append_each)

lemma collect_mesh_groups_eq:
  "collect_mesh_groups config bottom_mesh top_mesh cable_meshes placements =
     [MeshGroup bottom_mesh (canopy_appearance config), MeshGroup top_mesh (canopy_appearance config)]
     @ map (\<lambda>cm. MeshGroup cm (cable_appearance config)) cable_meshes
     @ concat (map (\<lambda>pl. map (\<lambda>pm. MeshGroup pm (pendant_appearance (pl_pendant pl))) (pl_meshes pl))
                   placements)"
  unfolding collect_mesh_groups_def Let_def fold_append_each fold_append_nested by simp

lemma remdups_snoc:
  "remdups (xs @ [k]) = remdups (filter (\<lambda>y. y \<noteq> k) xs) @ [k]"
  by (induction xs) auto

lemma first_seen_Cons:
  "rev (remdups (rev (k # ys))) = k # rev (remdups (rev (filter (\<lambda>y. y \<noteq> k) ys)))"
  by (simp add: remdups_snoc rev_filter)

lemma unique_fold:
  "fold (\<lambda>k material_keys. if k \<notin> set material_keys then material_keys @ [k] else material_keys) ks acc
     = acc @ rev (remdups (rev (filter (\<lambda>k. k \<notin> set acc) ks)))"
proof (induction ks arbitrary: acc)
  case Nil
  then show ?case by simp
next
  case (Cons k ks)
  show ?case
  proof (cases "k \<in> set acc")
    case True
    then show ?thesis using Cons.IH [of acc] by simp
  next
    case False
    have f: "filter (\<lambda>x. x \<notin> set (acc @ [k])) ks = filter (\<lambda>y. y \<noteq> k) (filter (\<lambda>x. x \<notin> set acc) ks)"
      by (induction ks) auto
    have "fold (\<lambda>k material_keys. if k \<notin> set material_keys then material_keys @ [k] else material_keys) (k # ks) acc
        = (acc @ [k]) @ rev (remdups (rev (filter (\<lambda>x. x \<notin> set (acc @ [k])) ks)))"
      using False Cons.IH [of "acc @ [k]"] by simp
    also have "\<dots> = acc @ rev (remdups (rev (k # filter (\<lambda>x. x \<notin> set acc) ks)))"
      unfolding f first_seen_Cons by simp
    finally show ?thesis using False by simp
  qed
qed

lemma unique_material_keys_eq:
  "unique_material_keys mesh_groups = rev (remdups (rev (map mg_material_key mesh_groups)))"
proof -
  have "unique_material_keys mesh_groups
      = fold (\<lambda>k material_keys. if k \<notin> set material_keys then material_keys @ [k] else material_keys)
          (map mg_material_key mesh_groups) []"
    by (simp add: unique_material_keys_def fold_map comp_def Let_def)
  then show ?thesis by (simp add: unique_fold)
qed

subsection \<open>The stateful steps, one by one\<close>

lemma same_caches_refl [simp]: "same_caches s s"
  by (simp add: same_caches_def)

lemma same_caches_trans: "same_caches s s1 \<Longrightarrow> same_caches s1 s2 \<Longrightarrow> same_caches s s2"
  by (simp add: same_caches_def)

lemma upt_Suc_front: "[l..<l + Suc k] = l # [Suc l..<Suc l + k]"
  by (simp add: upt_conv_Cons)

lemma alloc_spec:
  "alloc m s = (r, s') \<Longrightarrow> r = length (heap s) \<and> heap s' = heap s @ [m] \<and> same_caches s s'"
  by (auto simp: alloc_def same_caches_def)

lemma Duplicate_spec:
  "Duplicate m s = (r, s') \<Longrightarrow>
     r = length (heap s) \<and> heap s' = heap s @ [heap s ! m] \<and> same_caches s s'"
  unfolding Duplicate_def by (rule alloc_spec)

lemma Transform_last:
  "heap s = hp @ [m] \<Longrightarrow> r = length hp \<Longrightarrow>
     heap (Transform r xf s) = hp @ [transform_mesh xf m] \<and> same_caches s (Transform r xf s)"
  by (simp add: Transform_def same_caches_def)

lemma duplicate_all_spec:
  assumes "\<forall>r\<in>set refs. r < length (heap s)" and "duplicate_all refs s = (copies, s')"
  shows "copies = [length (heap s)..<length (heap s) + length refs]
       \<and> heap s' = heap s @ map (\<lambda>r. heap s ! r) refs
       \<and> same_caches s s'"
  using assms
proof (induction refs arbitrary: s copies s')
  case Nil
  then show ?case by simp
next
  case (Cons m ms)
  obtain m' s1 where d: "Duplicate m s = (m', s1)" by (cases "Duplicate m s")
  obtain ms' s2 where r: "duplicate_all ms s1 = (ms', s2)" by (cases "duplicate_all ms s1")
  from Duplicate_spec [OF d] have m': "m' = length (heap s)"
    and h1: "heap s1 = heap s @ [heap s ! m]" and c1: "same_caches s s1" by simp_all
  have inr: "\<forall>r\<in>set ms. r < length (heap s1)" using Cons.prems(1) h1 by auto
  from Cons.IH [OF inr r] have ms': "ms' = [length (heap s1)..<length (heap s1) + length ms]"
    and h2: "heap s2 = heap s1 @ map (\<lambda>r. heap s1 ! r) ms" and c2: "same_caches s1 s2" by simp_all
  have same: "map (\<lambda>r. heap s1 ! r) ms = map (\<lambda>r. heap s ! r) ms"
  proof (rule map_cong [OF refl])
    fix r assume "r \<in> set ms"
    then have "r < length (heap s)" using Cons.prems(1) by simp
    then show "heap s1 ! r = heap s ! r" unfolding h1 by (simp add: nth_append)
  qed
  from Cons.prems(2) d r have res: "copies = m' # ms'" "s' = s2" by simp_all
  have "copies = [length (heap s)..<length (heap s) + length (m # ms)]"
    unfolding res m' ms' h1 using upt_Suc_front [of "length (heap s)" "length ms"] by simp
  moreover have "heap s' = heap s @ map (\<lambda>r. heap s ! r) (m # ms)"
    unfolding res h2 same by (simp add: h1)
  moreover have "same_caches s s'"
    unfolding res using c1 c2 by (rule same_caches_trans)
  ultimately show ?case by blast
qed

lemma place_meshes_spec:
  assumes "\<forall>r\<in>set ms. r < length (heap s)" and "place_meshes rot tr ms s = (placed, s')"
  shows "placed = [length (heap s)..<length (heap s) + length ms]
       \<and> heap s' = heap s @ map (\<lambda>r. transform_mesh tr (transform_mesh rot (heap s ! r))) ms
       \<and> same_caches s s'"
  using assms
proof (induction ms arbitrary: s placed s')
  case Nil
  then show ?case by simp
next
  case (Cons m ms)
  obtain mm s1 where d: "Duplicate m s = (mm, s1)" by (cases "Duplicate m s")
  define s2 where "s2 = Transform mm rot s1"
  define s3 where "s3 = Transform mm tr s2"
  obtain rest s4 where r: "place_meshes rot tr ms s3 = (rest, s4)" by (cases "place_meshes rot tr ms s3")
  from Duplicate_spec [OF d] have mm: "mm = length (heap s)"
    and h1: "heap s1 = heap s @ [heap s ! m]" and c1: "same_caches s s1" by simp_all
  from Transform_last [OF h1 mm, of rot] have h2: "heap s2 = heap s @ [transform_mesh rot (heap s ! m)]"
    and c2: "same_caches s1 s2" by (simp_all add: s2_def)
  from Transform_last [OF h2 mm, of tr]
  have h3: "heap s3 = heap s @ [transform_mesh tr (transform_mesh rot (heap s ! m))]"
    and c3: "same_caches s2 s3" by (simp_all add: s3_def)
  have inr: "\<forall>r\<in>set ms. r < length (heap s3)" using Cons.prems(1) h3 by auto
  from Cons.IH [OF inr r] have rest: "rest = [length (heap s3)..<length (heap s3) + length ms]"
    and h4: "heap s4 = heap s3 @ map (\<lambda>r. transform_mesh tr (transform_mesh rot (heap s3 ! r))) ms"
    and c4: "same_caches s3 s4" by simp_all
  have same: "map (\<lambda>r. transform_mesh tr (transform_mesh rot (heap s3 ! r))) ms
            = map (\<lambda>r. transform_mesh tr (transform_mesh rot (heap s ! r))) ms"
  proof (rule map_cong [OF refl])
    fix r assume "r \<in> set ms"
    then have "r < length (heap s)" using Cons.prems(1) by simp
    then show "transform_mesh tr (transform_mesh rot (heap s3 ! r))
             = transform_mesh tr (transform_mesh rot (heap s ! r))"
      unfolding h3 by (simp add: nth_append)
  qed
  from Cons.prems(2) d r have res: "placed = mm # rest" "s' = s4"
    by (simp_all add: s2_def s3_def Let_def)
  have "placed = [length (heap s)..<length (heap s) + length (m # ms)]"
    unfolding res mm rest h3 using upt_Suc_front [of "length (heap s)" "length ms"] by simp
  moreover have "heap s' = heap s @ map (\<lambda>r. transform_mesh tr (transform_mesh rot (heap s ! r))) (m # ms)"
    unfolding res h4 same by (simp add: h3)
  moreover have "same_caches s s'"
    unfolding res using c1 c2 c3 c4 by (blast intro: same_caches_trans)
  ultimately show ?case by blast
qed

lemma grows_refl [simp]: "grows s s"
  by (simp add: grows_def)

lemma grows_trans: "grows s s1 \<Longrightarrow> grows s1 s2 \<Longrightarrow> grows s s2"
  unfolding grows_def by (elim conjE exE, intro conjI) auto

lemma grows_append: "heap s' = heap s @ zs \<Longrightarrow> same_caches s s' \<Longrightarrow> grows s s'"
  by (auto simp: grows_def same_caches_def)

lemma grows_length: "grows s s' \<Longrightarrow> length (heap s) \<le> length (heap s')"
  by (auto simp: grows_def)

lemma grows_nth: "grows s s' \<Longrightarrow> r < length (heap s) \<Longrightarrow> heap s' ! r = heap s ! r"
  by (auto simp: grows_def nth_append)

lemma store_ok_extents:
  "store_ok env s \<Longrightarrow> extents_cache s k = Some e \<Longrightarrow> template_extents env k = Inr e"
  unfolding store_ok_def by blast

lemma store_ok_load:
  "store_ok env s \<Longrightarrow> load_cache s k = Some refs \<Longrightarrow>
     (\<forall>r\<in>set refs. r < length (heap s)) \<and> template_meshes env k = Inr (map (\<lambda>r. heap s ! r) refs)"
  unfolding store_ok_def by blast

lemma store_ok_append:
  assumes "store_ok env s" and "heap s' = heap s @ zs" and "same_caches s s'"
  shows "store_ok env s'"
proof -
  have n: "map (\<lambda>r. heap s' ! r) refs = map (\<lambda>r. heap s ! r) refs"
    if "\<forall>r\<in>set refs. r < length (heap s)" for refs
    using that assms(2) by (auto simp: nth_append)
  show ?thesis
    unfolding store_ok_def
  proof (intro conjI allI impI)
    fix k refs assume c: "load_cache s' k = Some refs"
    then have c0: "load_cache s k = Some refs" using assms(3) by (simp add: same_caches_def)
    with assms(1) have r: "\<forall>r\<in>set refs. r < length (heap s)"
      and t: "template_meshes env k = Inr (map (\<lambda>r. heap s ! r) refs)"
      by (auto simp: store_ok_def)
    from r show "\<forall>r\<in>set refs. r < length (heap s')" using assms(2) by auto
    from t n [OF r] show "template_meshes env k = Inr (map (\<lambda>r. heap s' ! r) refs)" by simp
  next
    fix k e assume "extents_cache s' k = Some e"
    then have "extents_cache s k = Some e" using assms(3) by (simp add: same_caches_def)
    with assms(1) show "template_extents env k = Inr e" by (rule store_ok_extents)
  qed
qed

lemma load_pendant_meshes_spec:
  assumes ok: "store_ok env s" and run: "load_pendant_meshes env k s = (res, s')"
  shows "store_ok env s' \<and> grows s s'
       \<and> (case res of
             Inl e \<Rightarrow> template_meshes env k = Inl e
           | Inr refs \<Rightarrow> (\<forall>r\<in>set refs. r < length (heap s'))
                        \<and> template_meshes env k = Inr (map (\<lambda>r. heap s' ! r) refs))"
proof (cases "load_cache s k")
  case (Some refs)
  with run have "res = Inr refs" "s' = s" by (simp_all add: load_pendant_meshes_def)
  with ok Some show ?thesis by (auto simp: store_ok_def)
next
  case None
  show ?thesis
  proof (cases "template_meshes env k")
    case (Inl e)
    with None run have "res = Inl e" "s' = s"
      by (auto simp: load_pendant_meshes_def template_meshes_def split: sum.splits option.splits)
    with ok Inl show ?thesis by simp
  next
    case (Inr ms)
    define refs where "refs = [length (heap s)..<length (heap s) + length ms]"
    from Inr None run have res: "res = Inr refs"
      and s': "s' = s\<lparr>heap := heap s @ ms, load_cache := (load_cache s)(k \<mapsto> refs)\<rparr>"
      by (auto simp: load_pendant_meshes_def template_meshes_def refs_def Let_def
          split: sum.splits option.splits)
    have h: "heap s' = heap s @ ms" and lc: "load_cache s' = (load_cache s)(k \<mapsto> refs)"
      and ec: "extents_cache s' = extents_cache s" by (simp_all add: s')
    have vals: "map (\<lambda>r. heap s' ! r) refs = ms"
      unfolding h refs_def by (intro nth_equalityI) (auto simp: nth_append)
    have inr: "\<forall>r\<in>set refs. r < length (heap s')"
      unfolding h refs_def by auto
    have g: "grows s s'"
      unfolding grows_def using h lc ec None by auto
    have "store_ok env s'"
      unfolding store_ok_def
    proof (intro conjI allI impI)
      fix k' refs' assume c: "load_cache s' k' = Some refs'"
      show "\<forall>r\<in>set refs'. r < length (heap s')"
      proof (cases "k' = k")
        case True
        with c lc have "refs' = refs" by simp
        with inr show ?thesis by simp
      next
        case False
        with c lc have "load_cache s k' = Some refs'" by simp
        with ok have "\<forall>r\<in>set refs'. r < length (heap s)" by (auto simp: store_ok_def)
        then show ?thesis using h by auto
      qed
      show "template_meshes env k' = Inr (map (\<lambda>r. heap s' ! r) refs')"
      proof (cases "k' = k")
        case True
        with c lc have "refs' = refs" by simp
        with vals Inr True show ?thesis by simp
      next
        case False
        with c lc have c0: "load_cache s k' = Some refs'" by simp
        with ok have r: "\<forall>r\<in>set refs'. r < length (heap s)"
          and t: "template_meshes env k' = Inr (map (\<lambda>r. heap s ! r) refs')"
          by (auto simp: store_ok_def)
        have "map (\<lambda>r. heap s' ! r) refs' = map (\<lambda>r. heap s ! r) refs'"
          using r h by (auto simp: nth_append)
        with t show ?thesis by simp
      qed
    next
      fix k' e assume "extents_cache s' k' = Some e"
      with ec have "extents_cache s k' = Some e" by simp
      with ok show "template_extents env k' = Inr e" by (rule store_ok_extents)
    qed
    with g res inr vals Inr show ?thesis by simp
  qed
qed

lemma pendant_extents_spec:
  assumes ok: "store_ok env s" and run: "pendant_extents env k s = (res, s')"
  shows "store_ok env s' \<and> grows s s' \<and> res = template_extents env k"
proof (cases "extents_cache s k")
  case (Some e)
  with run have "res = Inr e" "s' = s" by (simp_all add: pendant_extents_def)
  with ok store_ok_extents [OF ok Some] show ?thesis by simp
next
  case None
  obtain r1 s1 where l: "load_pendant_meshes env k s = (r1, s1)"
    by (cases "load_pendant_meshes env k s")
  note sp = load_pendant_meshes_spec [OF ok l]
  show ?thesis
  proof (cases r1)
    case (Inl e)
    with None l run have "res = Inl e" "s' = s1" by (simp_all add: pendant_extents_def)
    with sp Inl show ?thesis by (simp add: template_extents_def)
  next
    case (Inr refs)
    with sp have ok1: "store_ok env s1" and g1: "grows s s1"
      and t: "template_meshes env k = Inr (map (\<lambda>r. heap s1 ! r) refs)" by simp_all
    show ?thesis
    proof (cases "extents_of_meshes (map (\<lambda>r. heap s1 ! r) refs)")
      case (Inl e)
      with None l Inr run have "res = Inl e" "s' = s1" by (simp_all add: pendant_extents_def)
      with ok1 g1 t Inl show ?thesis by (simp add: template_extents_def)
    next
      case tb: (Inr tb)
      with None l Inr run have res: "res = Inr tb"
        and s': "s' = s1\<lparr>extents_cache := (extents_cache s1)(k \<mapsto> tb)\<rparr>"
        by (simp_all add: pendant_extents_def)
      have te: "template_extents env k = Inr tb"
        using t tb by (simp add: template_extents_def)
      have n1: "extents_cache s1 k = None"
        using None g1 l by (auto simp: load_pendant_meshes_def Let_def split: option.splits sum.splits)
      have g: "grows s1 s'"
        unfolding grows_def s' using n1 by auto
      have "store_ok env s'"
        using ok1 te unfolding store_ok_def s' by auto
      with g g1 res te show ?thesis by (auto intro: grows_trans)
    qed
  qed
qed

lemma template_data_lengths:
  "template_data env ps = Inr (tops, bottoms, mss) \<Longrightarrow>
     length tops = length ps \<and> length bottoms = length ps \<and> length mss = length ps"
  by (induction ps arbitrary: tops bottoms mss) (auto split: sum.splits prod.splits)

lemma load_all_spec:
  assumes "store_ok env s" and "load_all env ps s = (res, s')"
  shows "store_ok env s' \<and> grows s s'
       \<and> (case res of
             Inl e \<Rightarrow> template_data env ps = Inl e
           | Inr (tops, bottoms, mbi) \<Rightarrow>
               (\<forall>refs\<in>set mbi. \<forall>r\<in>set refs. r < length (heap s'))
             \<and> template_data env ps = Inr (tops, bottoms, map (map (\<lambda>r. heap s' ! r)) mbi))"
  using assms
proof (induction ps arbitrary: s res s')
  case Nil
  then show ?case by auto
next
  case (Cons p ps)
  let ?k = "pendant_model p"
  obtain r1 s1 where e: "pendant_extents env ?k s = (r1, s1)" by (cases "pendant_extents env ?k s")
  from pendant_extents_spec [OF Cons.prems(1) e]
  have ok1: "store_ok env s1" and g1: "grows s s1" and r1: "template_extents env ?k = r1" by simp_all
  show ?case
  proof (cases r1)
    case (Inl err)
    with e Cons.prems(2) have "res = Inl err" "s' = s1" by simp_all
    with ok1 g1 r1 Inl show ?thesis by simp
  next
    case (Inr tb)
    obtain t b where tb: "tb = (t, b)" by (cases tb)
    obtain r2 s2 where l: "load_pendant_meshes env ?k s1 = (r2, s2)"
      by (cases "load_pendant_meshes env ?k s1")
    note sp2 = load_pendant_meshes_spec [OF ok1 l]
    then have ok2: "store_ok env s2" and g2: "grows s1 s2" by simp_all
    show ?thesis
    proof (cases r2)
      case err: (Inl err)
      with e Inr tb l Cons.prems(2) have "res = Inl err" "s' = s2" by simp_all
      moreover from sp2 err have "template_meshes env ?k = Inl err" by simp
      ultimately show ?thesis
        using ok2 g1 g2 r1 Inr tb by (auto intro: grows_trans)
    next
      case refs: (Inr refs)
      with sp2 have rin: "\<forall>r\<in>set refs. r < length (heap s2)"
        and tm: "template_meshes env ?k = Inr (map (\<lambda>r. heap s2 ! r) refs)" by simp_all
      obtain copies s3 where d: "duplicate_all refs s2 = (copies, s3)"
        by (cases "duplicate_all refs s2")
      from duplicate_all_spec [OF rin d]
      have copies: "copies = [length (heap s2)..<length (heap s2) + length refs]"
        and h3: "heap s3 = heap s2 @ map (\<lambda>r. heap s2 ! r) refs"
        and c3: "same_caches s2 s3" by simp_all
      have ok3: "store_ok env s3" using ok2 h3 c3 by (rule store_ok_append)
      have g3: "grows s2 s3" using h3 c3 by (rule grows_append)
      have cin: "\<forall>r\<in>set copies. r < length (heap s3)"
        unfolding copies h3 by auto
      have cvals: "map (\<lambda>r. heap s3 ! r) copies = map (\<lambda>r. heap s2 ! r) refs"
        unfolding copies h3 by (intro nth_equalityI) (auto simp: nth_append)
      obtain r4 s4 where rec: "load_all env ps s3 = (r4, s4)" by (cases "load_all env ps s3")
      note ih = Cons.IH [OF ok3 rec]
      then have ok4: "store_ok env s4" and g4: "grows s3 s4" by simp_all
      have g: "grows s s4" using g1 g2 g3 g4 by (blast intro: grows_trans)
      show ?thesis
      proof (cases r4)
        case err: (Inl err)
        with e Inr tb l refs d rec Cons.prems(2) have "res = Inl err" "s' = s4" by simp_all
        moreover from ih err have "template_data env ps = Inl err" by simp
        ultimately show ?thesis
          using ok4 g r1 Inr tb tm by simp
      next
        case rest: (Inr rest)
        obtain tops bottoms mbi where rest': "rest = (tops, bottoms, mbi)" by (cases rest)
        from e Inr tb l refs d rec rest rest' Cons.prems(2)
        have res: "res = Inr (t # tops, b # bottoms, copies # mbi)" and s': "s' = s4" by simp_all
        from ih rest rest' have min: "\<forall>refs\<in>set mbi. \<forall>r\<in>set refs. r < length (heap s4)"
          and td: "template_data env ps = Inr (tops, bottoms, map (map (\<lambda>r. heap s4 ! r)) mbi)"
          by simp_all
        have cin4: "\<forall>r\<in>set copies. r < length (heap s4)"
          using cin grows_length [OF g4] by auto
        have "map (\<lambda>r. heap s4 ! r) copies = map (\<lambda>r. heap s3 ! r) copies"
          using cin grows_nth [OF g4] by simp
        with cvals have cv4: "map (\<lambda>r. heap s4 ! r) copies = map (\<lambda>r. heap s2 ! r) refs" by simp
        have "template_data env (p # ps)
            = Inr (t # tops, b # bottoms, map (map (\<lambda>r. heap s4 ! r)) (copies # mbi))"
          using r1 Inr tb tm td cv4 by simp
        with res s' ok4 g min cin4 show ?thesis by simp
      qed
    qed
  qed
qed

lemma place_loop_spec:
  assumes "\<forall>refs\<in>set mbi. \<forall>r\<in>set refs. r < length (heap s)"
    and "\<forall>i\<in>set is. i < length mbi"
    and "place_loop env ps cp idx drops mbi is rng s = (res, s')"
  shows "(\<exists>zs. heap s' = heap s @ zs) \<and> same_caches s s'
       \<and> map_sum id (map (placement_value s')) res
           = planned_loop env ps cp idx drops (map (map (\<lambda>r. heap s ! r)) mbi) is rng"
  using assms
proof (induction "is" arbitrary: rng s res s')
  case Nil
  then show ?case by auto
next
  case (Cons i "is")
  show ?case
  proof (cases "length idx \<le> i \<or> length cp \<le> idx ! i")
    case True
    with Cons.prems(3) have "res = Inl IndexError" "s' = s" by auto
    with True show ?thesis by auto
  next
    case False
    define sp where "sp = cp ! (idx ! i)"
    define ep where "ep = Point3d (X sp) (Y sp) (Z sp - drops ! i)"
    obtain r rng1 where rr: "rng_random env rng = (r, rng1)" by (cases "rng_random env rng")
    define rot where "rot = Rotation (r * (2 * pi)) (Vector3d 0 0 1) (Point3d 0 0 0)"
    define tr where "tr = Translation (X ep) (Y ep) (Z ep)"
    obtain placed s1 where pm: "place_meshes rot tr (mbi ! i) s = (placed, s1)"
      by (cases "place_meshes rot tr (mbi ! i) s")
    obtain r2 s2 where rec: "place_loop env ps cp idx drops mbi is rng1 s1 = (r2, s2)"
      by (cases "place_loop env ps cp idx drops mbi is rng1 s1")
    from Cons.prems(2) have i: "i < length mbi" by simp
    then have mi: "mbi ! i \<in> set mbi" by simp
    with Cons.prems(1) have iin: "\<forall>r\<in>set (mbi ! i). r < length (heap s)" by blast
    from place_meshes_spec [OF iin pm]
    have placed: "placed = [length (heap s)..<length (heap s) + length (mbi ! i)]"
      and h1: "heap s1 = heap s @ map (\<lambda>r. transform_mesh tr (transform_mesh rot (heap s ! r))) (mbi ! i)"
      and c1: "same_caches s s1" by simp_all
    have in1: "\<forall>refs\<in>set mbi. \<forall>r\<in>set refs. r < length (heap s1)"
    proof (intro ballI)
      fix refs r assume "refs \<in> set mbi" "r \<in> set refs"
      with Cons.prems(1) have "r < length (heap s)" by blast
      then show "r < length (heap s1)" unfolding h1 by simp
    qed
    have is1: "\<forall>i\<in>set is. i < length mbi" using Cons.prems(2) by simp
    from Cons.IH [OF in1 is1 rec] obtain zs where h2: "heap s2 = heap s1 @ zs"
      and c2: "same_caches s1 s2"
      and v2: "map_sum id (map (placement_value s2)) r2
           = planned_loop env ps cp idx drops (map (map (\<lambda>r. heap s1 ! r)) mbi) is rng1"
      by blast
    have same: "map (map (\<lambda>r. heap s1 ! r)) mbi = map (map (\<lambda>r. heap s ! r)) mbi"
    proof (intro map_cong [OF refl])
      fix refs r assume "refs \<in> set mbi" "r \<in> set refs"
      with Cons.prems(1) have "r < length (heap s)" by blast
      then show "heap s1 ! r = heap s ! r" unfolding h1 by (simp add: nth_append)
    qed
    have pv: "map (\<lambda>r. heap s2 ! r) placed
            = map (\<lambda>m. transform_mesh tr (transform_mesh rot m)) (map (map (\<lambda>r. heap s ! r)) mbi ! i)"
      unfolding placed h2 h1 using i by (intro nth_equalityI) (auto simp: nth_append)
    have step: "place_loop env ps cp idx drops mbi (i # is) rng s
        = (case r2 of Inl e \<Rightarrow> (Inl e, s2)
           | Inr placements \<Rightarrow>
               (Inr (\<lparr>pl_pendant = ps ! i, pl_start = sp, pl_end = ep, pl_meshes = placed\<rparr> # placements), s2))"
      using False rr pm rec
      by (simp add: Let_def sp_def ep_def rot_def tr_def split: sum.splits)
    have pstep: "planned_loop env ps cp idx drops (map (map (\<lambda>r. heap s ! r)) mbi) (i # is) rng
        = (case planned_loop env ps cp idx drops (map (map (\<lambda>r. heap s ! r)) mbi) is rng1 of
             Inl e \<Rightarrow> Inl e
           | Inr rest \<Rightarrow>
               Inr (\<lparr>pv_pendant = ps ! i, pv_start = sp, pv_end = ep,
                     pv_meshes = map (\<lambda>m. transform_mesh tr (transform_mesh rot m))
                                     (map (map (\<lambda>r. heap s ! r)) mbi ! i)\<rparr> # rest))"
      using False rr
      by (simp add: Let_def sp_def ep_def rot_def tr_def split: sum.splits)
    have hp: "\<exists>zs. heap s2 = heap s @ zs" using h1 h2 by simp
    have cc: "same_caches s s2" using c1 c2 by (rule same_caches_trans)
    from v2 same
    have pl_is: "planned_loop env ps cp idx drops (map (map (\<lambda>r. heap s ! r)) mbi) is rng1
        = map_sum id (map (placement_value s2)) r2" by simp
    show ?thesis
    proof (cases r2)
      case (Inl e)
      with step Cons.prems(3) have res: "res = Inl e" "s' = s2" by simp_all
      have "planned_loop env ps cp idx drops (map (map (\<lambda>r. heap s ! r)) mbi) (i # is) rng = Inl e"
        unfolding pstep pl_is Inl by simp
      with hp cc res show ?thesis by (simp del: planned_loop.simps)
    next
      case (Inr placements)
      with step Cons.prems(3)
      have res: "res = Inr (\<lparr>pl_pendant = ps ! i, pl_start = sp, pl_end = ep, pl_meshes = placed\<rparr> # placements)"
        and s': "s' = s2" by simp_all
      have "planned_loop env ps cp idx drops (map (map (\<lambda>r. heap s ! r)) mbi) (i # is) rng
          = Inr (\<lparr>pv_pendant = ps ! i, pv_start = sp, pv_end = ep,
                     pv_meshes = map (\<lambda>r. heap s2 ! r) placed\<rparr>
                 # map (placement_value s2) placements)"
        unfolding pstep pl_is Inr pv by simp
      with res s' hp cc show ?thesis
        by (simp del: planned_loop.simps add: placement_value_def)
    qed
  qed
qed

lemma place_spec:
  assumes ok: "store_ok env s"
    and run: "place_pendants_then_plan_cables env config cp s = (res, s')"
  shows "store_ok env s' \<and> grows s s'
       \<and> map_sum id (map (placement_value s')) res = planned_placements env config cp"
proof -
  let ?n = "length (pendants config)"
  let ?rng = "new_Random env (random_seed config)"
  obtain r1 s1 where l: "load_all env (pendants config) s = (r1, s1)"
    by (cases "load_all env (pendants config) s")
  note sp1 = load_all_spec [OF ok l]
  then have ok1: "store_ok env s1" and g1: "grows s s1" by simp_all
  show ?thesis
  proof (cases r1)
    case (Inl e)
    with l run have "res = Inl e" "s' = s1" by (simp_all add: place_pendants_then_plan_cables_def)
    moreover from sp1 Inl have "template_data env (pendants config) = Inl e" by simp
    ultimately show ?thesis using ok1 g1 by (simp add: planned_placements_def)
  next
    case (Inr tbm)
    obtain tops bottoms mbi where tbm: "tbm = (tops, bottoms, mbi)" by (cases tbm)
    from sp1 Inr tbm have min: "\<forall>refs\<in>set mbi. \<forall>r\<in>set refs. r < length (heap s1)"
      and td: "template_data env (pendants config)
                 = Inr (tops, bottoms, map (map (\<lambda>r. heap s1 ! r)) mbi)" by simp_all
    from template_data_lengths [OF td] have len: "length mbi = ?n" by simp
    show ?thesis
    proof (cases "plan_drops ?n (first_drop_mm config) (total_drop_mm config) tops bottoms")
      case (Inl e)
      with l Inr tbm run have "res = Inl e" "s' = s1"
        by (simp_all add: place_pendants_then_plan_cables_def)
      with ok1 g1 td Inl show ?thesis by (simp add: planned_placements_def)
    next
      case gd: (Inr gd)
      obtain gap drops where gd': "gd = (gap, drops)" by (cases gd)
      show ?thesis
      proof (cases "assignment_indices env ?n (cluster_type config) cp ?rng")
        case (Inl e)
        with l Inr tbm gd gd' run have "res = Inl e" "s' = s1"
          by (simp_all add: place_pendants_then_plan_cables_def)
        with ok1 g1 td gd gd' Inl show ?thesis by (simp add: planned_placements_def)
      next
        case ir: (Inr ir)
        obtain idx rng1 where ir': "ir = (idx, rng1)" by (cases ir)
        from l Inr tbm gd gd' ir ir' run
        have pl: "place_loop env (pendants config) cp idx drops mbi [0..<?n] rng1 s1 = (res, s')"
          by (simp add: place_pendants_then_plan_cables_def)
        have rng_ok: "\<forall>i\<in>set [0..<?n]. i < length mbi" using len by simp
        from place_loop_spec [OF min rng_ok pl] obtain zs where h: "heap s' = heap s1 @ zs"
          and c: "same_caches s1 s'"
          and v: "map_sum id (map (placement_value s')) res
           = planned_loop env (pendants config) cp idx drops (map (map (\<lambda>r. heap s1 ! r)) mbi) [0..<?n] rng1"
          by blast
        have ok': "store_ok env s'" using ok1 h c by (rule store_ok_append)
        have g': "grows s s'" using g1 grows_append [OF h c] by (rule grows_trans)
        from v td gd gd' ir ir' have "map_sum id (map (placement_value s')) res
            = planned_placements env config cp"
          by (simp add: planned_placements_def)
        with ok' g' show ?thesis by simp
      qed
    qed
  qed
qed

subsection \<open>The small configuration, evaluated\<close>

lemma ex_path: "get_pendant_path ''denny'' = Inr ''Denny.3dm''"
  by (simp add: get_pendant_path_def PENDANT_LIBRARY_def)

lemma ex_meshes: "template_meshes ex_env ''denny'' = Inr [ex_template]"
  by (simp add: template_meshes_def ex_path ex_env_def)

lemma ex_extents: "template_extents ex_env ''denny'' = Inr (100, 100)"
  by (simp add: template_extents_def ex_meshes extents_of_meshes_def union_of_boxes_def
      GetBoundingBox_def ex_template_def)

lemma ex_data: "template_data ex_env (pendants ex_config)
    = Inr ([100, 100], [100, 100], [[ex_template], [ex_template]])"
  by (simp add: ex_config_def ex_extents ex_meshes)

lemma ex_drops: "plan_drops 2 100 200 [100, 100] [100, 100] = Inr (- 300, [100, 0])"
proof -
  have up: "[0..<2 - 1] = [0]" by (simp add: upt_rec)
  show ?thesis
    by (simp add: plan_drops_def Let_def occupied_clearance_def gap_of_def drops_of_def up)
qed

lemma ex_indices: "assignment_indices ex_env 2 (Some RING_WITH_CENTER) ex_points g = Inr ([0, 1], g)"
proof -
  have up: "[0..<2] = [0, Suc 0]" by (simp add: upt_rec)
  show ?thesis
    by (simp add: assignment_indices_def ex_points_def Let_def up atan2_def)
qed

lemma ex_planned:
  "planned_placements ex_env ex_config ex_points
     = Inr [\<lparr>pv_pendant = \<lparr>pendant_model = ''denny'', pendant_appearance = ''shade_natural''\<rparr>,
              pv_start = Point3d 110 0 (- 40), pv_end = Point3d 110 0 (- 140),
              pv_meshes = [transform_mesh (Translation 110 0 (- 140))
                             (transform_mesh (Rotation 0 (Vector3d 0 0 1) (Point3d 0 0 0)) ex_template)]\<rparr>,
            \<lparr>pv_pendant = \<lparr>pendant_model = ''denny'', pendant_appearance = ''shade_white''\<rparr>,
              pv_start = Point3d 0 0 (- 40), pv_end = Point3d 0 0 (- 40),
              pv_meshes = [transform_mesh (Translation 0 0 (- 40))
                             (transform_mesh (Rotation 0 (Vector3d 0 0 1) (Point3d 0 0 0)) ex_template)]\<rparr>]"
proof -
  have up: "[0..<2] = [0, Suc 0]" by (simp add: upt_rec)
  have n: "length (pendants ex_config) = 2" by (simp add: ex_config_def)
  have f: "first_drop_mm ex_config = 100" "total_drop_mm ex_config = 200"
    "cluster_type ex_config = Some RING_WITH_CENTER" by (simp_all add: ex_config_def)
  have r: "rng_random ex_env g = (0, Suc g)" for g by (simp add: ex_env_def)
  show ?thesis
    unfolding planned_placements_def Let_def n f ex_data
    apply (simp add: ex_drops ex_indices)
    apply (simp add: up r ex_points_def ex_config_def Let_def)
    done
qed

lemma ex_load_all:
  "load_all ex_env (pendants ex_config) init_state
     = (Inr ([100, 100], [100, 100], [[1], [2]]),
        \<lparr>heap = [ex_template, ex_template, ex_template],
         load_cache = (\<lambda>k. None)(''denny'' \<mapsto> [0]),
         extents_cache = (\<lambda>k. None)(''denny'' \<mapsto> (100, 100))\<rparr>)"
  by (simp add: ex_config_def init_state_def pendant_extents_def load_pendant_meshes_def ex_path
      ex_env_def Let_def extents_of_meshes_def union_of_boxes_def GetBoundingBox_def ex_template_def
      Duplicate_def alloc_def)

lemma ex_place:
  "place_pendants_then_plan_cables ex_env ex_config ex_points init_state
     = (Inr [\<lparr>pl_pendant = \<lparr>pendant_model = ''denny'', pendant_appearance = ''shade_natural''\<rparr>,
               pl_start = Point3d 110 0 (- 40), pl_end = Point3d 110 0 (- 140), pl_meshes = [3]\<rparr>,
             \<lparr>pl_pendant = \<lparr>pendant_model = ''denny'', pendant_appearance = ''shade_white''\<rparr>,
               pl_start = Point3d 0 0 (- 40), pl_end = Point3d 0 0 (- 40), pl_meshes = [4]\<rparr>],
        \<lparr>heap = [ex_template, ex_template, ex_template,
                 transform_mesh (Translation 110 0 (- 140))
                   (transform_mesh (Rotation 0 (Vector3d 0 0 1) (Point3d 0 0 0)) ex_template),
                 transform_mesh (Translation 0 0 (- 40))
                   (transform_mesh (Rotation 0 (Vector3d 0 0 1) (Point3d 0 0 0)) ex_template)],
         load_cache = (\<lambda>k. None)(''denny'' \<mapsto> [0]),
         extents_cache = (\<lambda>k. None)(''denny'' \<mapsto> (100, 100))\<rparr>)"
proof -
  have up: "[0..<2] = [0, Suc 0]" by (simp add: upt_rec)
  have n: "length (pendants ex_config) = 2" by (simp add: ex_config_def)
  have f: "first_drop_mm ex_config = 100" "total_drop_mm ex_config = 200"
    "cluster_type ex_config = Some RING_WITH_CENTER" by (simp_all add: ex_config_def)
  have r: "rng_random ex_env g = (0, Suc g)" for g by (simp add: ex_env_def)
  show ?thesis
    unfolding place_pendants_then_plan_cables_def Let_def n f ex_load_all
    apply (simp add: ex_drops ex_indices)
    apply (simp add: up r ex_points_def ex_config_def Let_def Duplicate_def alloc_def Transform_def)
    done
qed

subsection \<open>Templates are never mutated\<close>

lemma store_ok_init: "store_ok env init_state"
  by (simp add: store_ok_def init_state_def)

text \<open>
  C9. A planning call from a consistent store, whether it returns or raises, changes no
  mesh object that existed before it: every transform goes to an object that the call
  itself created with \<open>Duplicate\<close>. Every template that was cached before the call is
  cached after it as the same objects with the same contents, every template in the
  store after the call (also one loaded during it) holds exactly the meshes of its file,
  and the store is consistent again.
\<close>

theorem templates_never_mutated:
  assumes "store_ok env s"
    and "place_pendants_then_plan_cables env config connection_points s = (res, s')"
  shows "(\<forall>r<length (heap s). heap s' ! r = heap s ! r)
       \<and> (\<forall>k refs. load_cache s k = Some refs \<longrightarrow>
             load_cache s' k = Some refs
           \<and> map (\<lambda>r. heap s' ! r) refs = map (\<lambda>r. heap s ! r) refs)
       \<and> (\<forall>k refs. load_cache s' k = Some refs \<longrightarrow>
             template_meshes env k = Inr (map (\<lambda>r. heap s' ! r) refs))
       \<and> store_ok env s'"
proof -
  from place_spec [OF assms] have ok': "store_ok env s'" and g: "grows s s'" by simp_all
  have a: "\<forall>r<length (heap s). heap s' ! r = heap s ! r"
    using grows_nth [OF g] by simp
  have b: "load_cache s' k = Some refs \<and> map (\<lambda>r. heap s' ! r) refs = map (\<lambda>r. heap s ! r) refs"
    if c: "load_cache s k = Some refs" for k refs
  proof -
    from store_ok_load [OF assms(1) c] have "\<forall>r\<in>set refs. r < length (heap s)" by simp
    then have "map (\<lambda>r. heap s' ! r) refs = map (\<lambda>r. heap s ! r) refs"
      using a by simp
    moreover from g c have "load_cache s' k = Some refs" by (simp add: grows_def)
    ultimately show ?thesis by simp
  qed
  have c: "template_meshes env k = Inr (map (\<lambda>r. heap s' ! r) refs)"
    if "load_cache s' k = Some refs" for k refs
    using store_ok_load [OF ok' that] by simp
  from a b c ok' show ?thesis by blast
qed

lemma ex_store_ok1: "store_ok ex_env ex_state1"
  using place_spec [OF store_ok_init ex_place] by (simp add: ex_state1_def)

lemma ex_load_all1:
  "load_all ex_env (pendants ex_config) ex_state1
     = (Inr ([100, 100], [100, 100], [[5], [6]]), ex_state1\<lparr>heap := heap ex_state1 @ [ex_template, ex_template]\<rparr>)"
  by (simp add: ex_config_def ex_state1_def pendant_extents_def load_pendant_meshes_def
      Let_def Duplicate_def alloc_def)

lemma ex_place1:
  "place_pendants_then_plan_cables ex_env ex_config ex_points ex_state1
     = (Inr [\<lparr>pl_pendant = \<lparr>pendant_model = ''denny'', pendant_appearance = ''shade_natural''\<rparr>,
               pl_start = Point3d 110 0 (- 40), pl_end = Point3d 110 0 (- 140), pl_meshes = [7]\<rparr>,
             \<lparr>pl_pendant = \<lparr>pendant_model = ''denny'', pendant_appearance = ''shade_white''\<rparr>,
               pl_start = Point3d 0 0 (- 40), pl_end = Point3d 0 0 (- 40), pl_meshes = [8]\<rparr>],
        ex_state1\<lparr>heap := heap ex_state1 @
           [ex_template, ex_template,
            transform_mesh (Translation 110 0 (- 140))
              (transform_mesh (Rotation 0 (Vector3d 0 0 1) (Point3d 0 0 0)) ex_template),
            transform_mesh (Translation 0 0 (- 40))
              (transform_mesh (Rotation 0 (Vector3d 0 0 1) (Point3d 0 0 0)) ex_template)]\<rparr>)"
proof -
  have up: "[0..<2] = [0, Suc 0]" by (simp add: upt_rec)
  have n: "length (pendants ex_config) = 2" by (simp add: ex_config_def)
  have f: "first_drop_mm ex_config = 100" "total_drop_mm ex_config = 200"
    "cluster_type ex_config = Some RING_WITH_CENTER" by (simp_all add: ex_config_def)
  have r: "rng_random ex_env g = (0, Suc g)" for g by (simp add: ex_env_def)
  show ?thesis
    unfolding place_pendants_then_plan_cables_def Let_def n f ex_load_all1
    apply (simp add: ex_drops ex_indices)
    apply (simp add: up r ex_points_def ex_config_def Let_def Duplicate_def alloc_def Transform_def
        ex_state1_def)
    done
qed

theorem templates_never_mutated_witness:
  "store_ok ex_env ex_state1
   \<and> place_pendants_then_plan_cables ex_env ex_config ex_points ex_state1
       = (fst (place_pendants_then_plan_cables ex_env ex_config ex_points ex_state1),
          snd (place_pendants_then_plan_cables ex_env ex_config ex_points ex_state1))
   \<and> load_cache ex_state1 ''denny'' = Some [0]
   \<and> load_cache (snd (place_pendants_then_plan_cables ex_env ex_config ex_points ex_state1)) ''denny''
       = Some [0]
   \<and> heap (snd (place_pendants_then_plan_cables ex_env ex_config ex_points ex_state1)) ! 0
       = ex_template
   \<and> length (heap (snd (place_pendants_then_plan_cables ex_env ex_config ex_points ex_state1))) = 9"
proof -
  let ?run = "place_pendants_then_plan_cables ex_env ex_config ex_points ex_state1"
  have run: "?run = (fst ?run, snd ?run)" by simp
  have c: "load_cache ex_state1 ''denny'' = Some [0]" by (simp add: ex_state1_def)
  have h0: "heap ex_state1 ! 0 = ex_template" by (simp add: ex_state1_def)
  have l: "0 < length (heap ex_state1)" by (simp add: ex_state1_def)
  note inst = templates_never_mutated [OF ex_store_ok1 run]
  from inst c have "load_cache (snd ?run) ''denny'' = Some [0]" by blast
  moreover from inst l h0 have "heap (snd ?run) ! 0 = ex_template" by simp
  moreover have "length (heap (snd ?run)) = 9"
    unfolding ex_place1 by (simp add: ex_state1_def)
  ultimately show ?thesis using ex_store_ok1 run c by blast
qed

subsection \<open>Cable segments are vertical\<close>

lemma place_loop_points:
  "place_loop env ps cp idx drops mbi is rng s = (Inr pls, s') \<Longrightarrow>
     map pl_pendant pls = map (\<lambda>i. ps ! i) is
   \<and> map pl_start pls = map (\<lambda>i. cp ! (idx ! i)) is
   \<and> map pl_end pls = map (\<lambda>i. Point3d (X (cp ! (idx ! i))) (Y (cp ! (idx ! i)))
                                        (Z (cp ! (idx ! i)) - drops ! i)) is"
proof (induction "is" arbitrary: rng s pls s')
  case Nil
  then show ?case by simp
next
  case (Cons i "is")
  from Cons.prems show ?case
    by (auto simp: Let_def split: if_splits prod.splits sum.splits dest!: Cons.IH)
qed

lemma vec_length_vertical: "vec_length (Vector3d 0 0 d) = \<bar>d\<bar>"
  by (simp add: vec_length_def)

text \<open>
  C10, as the code has it. Every placement that the planner returns ends straight below
  or above its start: the end point is \<open>(start.X, start.Y, start.Z - drop)\<close> for the
  cumulative drop of that pendant, so the segment is vertical and its length is the
  absolute value of the drop, which is the drop itself when the drop is not negative.
\<close>

theorem cable_segments_vertical:
  assumes "place_pendants_then_plan_cables env config connection_points s = (Inr placements, s')"
    and "load_all env (pendants config) s = (Inr (tops, bottoms, meshes_by_index), s1)"
    and "plan_drops (length (pendants config)) (first_drop_mm config) (total_drop_mm config)
           tops bottoms = Inr (gap, drops)"
  shows "length placements = length (pendants config)
       \<and> (\<forall>i<length (pendants config).
             pl_end (placements ! i)
               = Point3d (X (pl_start (placements ! i))) (Y (pl_start (placements ! i)))
                         (Z (pl_start (placements ! i)) - drops ! i)
           \<and> segment_vector (placements ! i) = Vector3d 0 0 (- (drops ! i))
           \<and> vec_length (segment_vector (placements ! i)) = \<bar>drops ! i\<bar>
           \<and> (0 \<le> drops ! i \<longrightarrow> vec_length (segment_vector (placements ! i)) = drops ! i))"
proof -
  let ?n = "length (pendants config)"
  from assms obtain idx rng1 where
    loop: "place_loop env (pendants config) connection_points idx drops meshes_by_index [0..<?n] rng1 s1
             = (Inr placements, s')"
    by (auto simp: place_pendants_then_plan_cables_def Let_def split: sum.splits prod.splits)
  from place_loop_points [OF loop]
  have st: "map pl_start placements = map (\<lambda>i. connection_points ! (idx ! i)) [0..<?n]"
    and en: "map pl_end placements
        = map (\<lambda>i. Point3d (X (connection_points ! (idx ! i))) (Y (connection_points ! (idx ! i)))
                            (Z (connection_points ! (idx ! i)) - drops ! i)) [0..<?n]"
    by simp_all
  from st have len: "length placements = ?n"
    using length_map [of pl_start placements] by simp
  have each: "pl_end (placements ! i)
               = Point3d (X (pl_start (placements ! i))) (Y (pl_start (placements ! i)))
                         (Z (pl_start (placements ! i)) - drops ! i)
           \<and> segment_vector (placements ! i) = Vector3d 0 0 (- (drops ! i))
           \<and> vec_length (segment_vector (placements ! i)) = \<bar>drops ! i\<bar>
           \<and> (0 \<le> drops ! i \<longrightarrow> vec_length (segment_vector (placements ! i)) = drops ! i)"
    if i: "i < ?n" for i
  proof -
    from i len have "pl_start (placements ! i) = map pl_start placements ! i" by simp
    with st i have s: "pl_start (placements ! i) = connection_points ! (idx ! i)" by simp
    from i len have "pl_end (placements ! i) = map pl_end placements ! i" by simp
    with en i have e: "pl_end (placements ! i)
        = Point3d (X (connection_points ! (idx ! i))) (Y (connection_points ! (idx ! i)))
                  (Z (connection_points ! (idx ! i)) - drops ! i)" by simp
    have v: "segment_vector (placements ! i) = Vector3d 0 0 (- (drops ! i))"
      by (simp add: segment_vector_def Let_def s e)
    show ?thesis
      unfolding v vec_length_vertical using s e by simp
  qed
  from len each show ?thesis by blast
qed

lemma ex_tall_path: "get_pendant_path ''alki'' = Inr ''Alki.3dm''"
  by (simp add: get_pendant_path_def PENDANT_LIBRARY_def)

lemma ex_tall_load_all:
  "load_all ex_env (pendants ex_config_tall) init_state
     = (Inr ([150, 150], [150, 150], [[1], [2]]),
        \<lparr>heap = [ex_template_tall, ex_template_tall, ex_template_tall],
         load_cache = (\<lambda>k. None)(''alki'' \<mapsto> [0]),
         extents_cache = (\<lambda>k. None)(''alki'' \<mapsto> (150, 150))\<rparr>)"
  by (simp add: ex_config_tall_def ex_config_def init_state_def pendant_extents_def
      load_pendant_meshes_def ex_tall_path
      ex_env_def Let_def extents_of_meshes_def union_of_boxes_def GetBoundingBox_def
      ex_template_tall_def Duplicate_def alloc_def)

lemma ex_tall_drops: "plan_drops 2 100 200 [150, 150] [150, 150] = Inr (- 500, [100, - 100])"
proof -
  have up: "[0..<2 - 1] = [0]" by (simp add: upt_rec)
  show ?thesis
    by (simp add: plan_drops_def Let_def occupied_clearance_def gap_of_def drops_of_def up)
qed

lemma ex_tall_place:
  "fst (place_pendants_then_plan_cables ex_env ex_config_tall ex_points init_state)
     = Inr [\<lparr>pl_pendant = \<lparr>pendant_model = ''alki'', pendant_appearance = ''shade_natural''\<rparr>,
              pl_start = Point3d 110 0 (- 40), pl_end = Point3d 110 0 (- 140), pl_meshes = [3]\<rparr>,
            \<lparr>pl_pendant = \<lparr>pendant_model = ''alki'', pendant_appearance = ''shade_white''\<rparr>,
              pl_start = Point3d 0 0 (- 40), pl_end = Point3d 0 0 60, pl_meshes = [4]\<rparr>]"
proof -
  have up: "[0..<2] = [0, Suc 0]" by (simp add: upt_rec)
  have n: "length (pendants ex_config_tall) = 2" by (simp add: ex_config_tall_def)
  have f: "first_drop_mm ex_config_tall = 100" "total_drop_mm ex_config_tall = 200"
    "cluster_type ex_config_tall = Some RING_WITH_CENTER"
    by (simp_all add: ex_config_tall_def ex_config_def)
  have r: "rng_random ex_env g = (0, Suc g)" for g by (simp add: ex_env_def)
  show ?thesis
    unfolding place_pendants_then_plan_cables_def Let_def n f ex_tall_load_all
    apply (simp add: ex_tall_drops ex_indices)
    apply (simp add: up r ex_points_def ex_config_tall_def Let_def Duplicate_def alloc_def Transform_def)
    done
qed

text \<open>
  With two pendants whose extents exceed the total drop the second cumulative drop is
  negative: that pendant ends 100 above its attachment point, and its segment has length
  100 while its drop is \<open>- 100\<close>.
\<close>

theorem cable_length_counterexample:
  "fst (place_pendants_then_plan_cables ex_env ex_config_tall ex_points init_state)
     = Inr [\<lparr>pl_pendant = \<lparr>pendant_model = ''alki'', pendant_appearance = ''shade_natural''\<rparr>,
              pl_start = Point3d 110 0 (- 40), pl_end = Point3d 110 0 (- 140), pl_meshes = [3]\<rparr>,
            \<lparr>pl_pendant = \<lparr>pendant_model = ''alki'', pendant_appearance = ''shade_white''\<rparr>,
              pl_start = Point3d 0 0 (- 40), pl_end = Point3d 0 0 60, pl_meshes = [4]\<rparr>]
   \<and> fst (load_all ex_env (pendants ex_config_tall) init_state)
       = Inr ([150, 150], [150, 150], [[1], [2]])
   \<and> plan_drops (length (pendants ex_config_tall)) (first_drop_mm ex_config_tall)
        (total_drop_mm ex_config_tall) [150, 150] [150, 150] = Inr (- 500, [100, - 100])
   \<and> vec_length (segment_vector
        \<lparr>pl_pendant = \<lparr>pendant_model = ''alki'', pendant_appearance = ''shade_white''\<rparr>,
         pl_start = Point3d 0 0 (- 40), pl_end = Point3d 0 0 60, pl_meshes = [4]\<rparr>) = 100
   \<and> [100, - 100 :: real] ! 1 = - 100"
proof -
  have v: "vec_length (Vector3d 0 0 100) = 100" by (simp add: vec_length_vertical)
  have n: "length (pendants ex_config_tall) = 2" by (simp add: ex_config_tall_def)
  have f: "first_drop_mm ex_config_tall = 100" "total_drop_mm ex_config_tall = 200"
    by (simp_all add: ex_config_tall_def ex_config_def)
  show ?thesis
    unfolding n f ex_tall_drops ex_tall_place ex_tall_load_all
    by (simp add: segment_vector_def v)
qed

theorem cable_segments_vertical_witness:
  "place_pendants_then_plan_cables ex_env ex_config ex_points init_state
     = (Inr [\<lparr>pl_pendant = \<lparr>pendant_model = ''denny'', pendant_appearance = ''shade_natural''\<rparr>,
               pl_start = Point3d 110 0 (- 40), pl_end = Point3d 110 0 (- 140), pl_meshes = [3]\<rparr>,
             \<lparr>pl_pendant = \<lparr>pendant_model = ''denny'', pendant_appearance = ''shade_white''\<rparr>,
               pl_start = Point3d 0 0 (- 40), pl_end = Point3d 0 0 (- 40), pl_meshes = [4]\<rparr>],
        ex_state1)
   \<and> load_all ex_env (pendants ex_config) init_state
       = (Inr ([100, 100], [100, 100], [[1], [2]]),
          \<lparr>heap = [ex_template, ex_template, ex_template],
           load_cache = (\<lambda>k. None)(''denny'' \<mapsto> [0]),
           extents_cache = (\<lambda>k. None)(''denny'' \<mapsto> (100, 100))\<rparr>)
   \<and> plan_drops (length (pendants ex_config)) (first_drop_mm ex_config) (total_drop_mm ex_config)
        [100, 100] [100, 100] = Inr (- 300, [100, 0])
   \<and> vec_length (segment_vector
        \<lparr>pl_pendant = \<lparr>pendant_model = ''denny'', pendant_appearance = ''shade_natural''\<rparr>,
         pl_start = Point3d 110 0 (- 40), pl_end = Point3d 110 0 (- 140), pl_meshes = [3]\<rparr>) = 100
   \<and> vec_length (segment_vector
        \<lparr>pl_pendant = \<lparr>pendant_model = ''denny'', pendant_appearance = ''shade_white''\<rparr>,
         pl_start = Point3d 0 0 (- 40), pl_end = Point3d 0 0 (- 40), pl_meshes = [4]\<rparr>) = 0"
proof -
  have p: "place_pendants_then_plan_cables ex_env ex_config ex_points init_state
     = (Inr [\<lparr>pl_pendant = \<lparr>pendant_model = ''denny'', pendant_appearance = ''shade_natural''\<rparr>,
               pl_start = Point3d 110 0 (- 40), pl_end = Point3d 110 0 (- 140), pl_meshes = [3]\<rparr>,
             \<lparr>pl_pendant = \<lparr>pendant_model = ''denny'', pendant_appearance = ''shade_white''\<rparr>,
               pl_start = Point3d 0 0 (- 40), pl_end = Point3d 0 0 (- 40), pl_meshes = [4]\<rparr>],
        ex_state1)"
    unfolding ex_state1_def by (rule ex_place)
  have d: "plan_drops (length (pendants ex_config)) (first_drop_mm ex_config) (total_drop_mm ex_config)
        [100, 100] [100, 100] = Inr (- 300, [100, 0])"
  proof -
    have n: "length (pendants ex_config) = 2" by (simp add: ex_config_def)
    have f: "first_drop_mm ex_config = 100" "total_drop_mm ex_config = 200"
      by (simp_all add: ex_config_def)
    show ?thesis unfolding n f by (rule ex_drops)
  qed
  note inst = cable_segments_vertical [OF p ex_load_all d]
  from inst [THEN conjunct2, THEN spec, of 0] have a: "vec_length (segment_vector
        \<lparr>pl_pendant = \<lparr>pendant_model = ''denny'', pendant_appearance = ''shade_natural''\<rparr>,
         pl_start = Point3d 110 0 (- 40), pl_end = Point3d 110 0 (- 140), pl_meshes = [3]\<rparr>) = 100"
    by (simp add: ex_config_def vec_length_vertical)
  from inst [THEN conjunct2, THEN spec, of 1] have b: "vec_length (segment_vector
        \<lparr>pl_pendant = \<lparr>pendant_model = ''denny'', pendant_appearance = ''shade_white''\<rparr>,
         pl_start = Point3d 0 0 (- 40), pl_end = Point3d 0 0 (- 40), pl_meshes = [4]\<rparr>) = 0"
    by (simp add: ex_config_def vec_length_vertical)
  from p ex_load_all d a b show ?thesis by (intro conjI)
qed

subsection \<open>Cables and canopy in the store\<close>

lemma build_cables_spec:
  assumes "build_cables_from_placements pls s = (res, s')"
  shows "(\<exists>zs. heap s' = heap s @ zs) \<and> same_caches s s'
       \<and> (case res of
             Inl e \<Rightarrow>
               e = TypeError
             \<and> (\<exists>pl\<in>set pls. has_cable (pl_start pl) (pl_end pl)
                    \<and> rotation_from_z (segment_vector pl) = Identity_method)
           | Inr (meshes, ends) \<Rightarrow>
               (\<forall>pl\<in>set pls. has_cable (pl_start pl) (pl_end pl)
                    \<longrightarrow> rotation_from_z (segment_vector pl) \<noteq> Identity_method)
             \<and> meshes = [length (heap s)..<length (heap s)
                     + length (filter (\<lambda>pl. has_cable (pl_start pl) (pl_end pl)) pls)]
             \<and> ends = map pl_end (filter (\<lambda>pl. has_cable (pl_start pl) (pl_end pl)) pls)
             \<and> heap s' = heap s @ map (\<lambda>pl. cable_value (pl_start pl) (pl_end pl))
                                 (filter (\<lambda>pl. has_cable (pl_start pl) (pl_end pl)) pls))"
  using assms
proof (induction pls arbitrary: s res s')
  case Nil
  then show ?case by auto
next
  case (Cons pl pls)
  let ?d = "segment_vector pl"
  let ?kept = "\<lambda>pls. filter (\<lambda>pl. has_cable (pl_start pl) (pl_end pl)) pls"
  have d: "?d = Vector3d (X (pl_end pl) - X (pl_start pl)) (Y (pl_end pl) - Y (pl_start pl))
                         (Z (pl_end pl) - Z (pl_start pl))"
    by (simp add: segment_vector_def Let_def)
  show ?case
  proof (cases "has_cable (pl_start pl) (pl_end pl)")
    case False
    then have short: "vec_length ?d < 1 / 10 ^ 6" by (simp add: has_cable_def d)
    with Cons.prems have "build_cables_from_placements pls s = (res, s')"
      by (simp add: Let_def)
    from Cons.IH [OF this] False show ?thesis
      by (cases res) (auto split: prod.splits)
  next
    case True
    then have long: "\<not> vec_length ?d < 1 / 10 ^ 6" by (simp add: has_cable_def d)
    obtain cyl s1 where c: "create_cylinder_mesh CABLE_RADIUS_MM (vec_length ?d) 32 s = (cyl, s1)"
      by (cases "create_cylinder_mesh CABLE_RADIUS_MM (vec_length ?d) 32 s")
    from c have cyl: "cyl = length (heap s)"
      and h1: "heap s1 = heap s @ [cylinder_mesh CABLE_RADIUS_MM (vec_length ?d) 32]"
      and c1: "same_caches s s1"
      using alloc_spec [of "cylinder_mesh CABLE_RADIUS_MM (vec_length ?d) 32" s cyl s1]
      by (simp_all add: create_cylinder_mesh_def)
    show ?thesis
    proof (cases "rotation_from_z ?d")
      case Identity_method
      with Cons.prems long c have "res = Inl TypeError" "s' = s1"
        by (simp_all add: Let_def Transform_checked_def)
      with h1 c1 True Identity_method show ?thesis by auto
    next
      case (A_transform rot)
      define s2 where "s2 = Transform cyl rot s1"
      define s3 where "s3 = Transform cyl (Translation (X (pl_start pl)) (Y (pl_start pl)) (Z (pl_start pl))) s2"
      obtain r4 s4 where r: "build_cables_from_placements pls s3 = (r4, s4)"
        by (cases "build_cables_from_placements pls s3")
      from Transform_last [OF h1 cyl, of rot]
      have h2: "heap s2 = heap s @ [transform_mesh rot (cylinder_mesh CABLE_RADIUS_MM (vec_length ?d) 32)]"
        and c2: "same_caches s1 s2" by (simp_all add: s2_def)
      from Transform_last [OF h2 cyl, of "Translation (X (pl_start pl)) (Y (pl_start pl)) (Z (pl_start pl))"]
      have h3: "heap s3 = heap s @ [cable_value (pl_start pl) (pl_end pl)]"
        and c3: "same_caches s2 s3"
        using A_transform by (simp_all add: s3_def cable_value_def Let_def d)
      from Cons.IH [OF r] obtain zs where h4: "heap s4 = heap s3 @ zs" and c4: "same_caches s3 s4"
        by blast
      have step: "build_cables_from_placements (pl # pls) s
          = (case r4 of Inl e \<Rightarrow> (Inl e, s4)
             | Inr (meshes, ends) \<Rightarrow> (Inr (cyl # meshes, pl_end pl # ends), s4))"
        using long c r A_transform
        by (simp add: Let_def Transform_checked_def s2_def s3_def split: sum.splits prod.splits)
      have grow: "\<exists>zs. heap s4 = heap s @ zs" unfolding h4 h3 by simp
      have caches: "same_caches s s4" using c1 c2 c3 c4 by (blast intro: same_caches_trans)
      show ?thesis
      proof (cases r4)
        case (Inl e)
        with step Cons.prems have res: "res = Inl e" "s' = s4" by simp_all
        from Cons.IH [OF r] Inl have "e = TypeError"
          and "\<exists>pl\<in>set pls. has_cable (pl_start pl) (pl_end pl)
                    \<and> rotation_from_z (segment_vector pl) = Identity_method" by simp_all
        with res grow caches show ?thesis by auto
      next
        case (Inr me)
        obtain ms es where me: "me = (ms, es)" by (cases me)
        with Inr step Cons.prems have res: "res = Inr (cyl # ms, pl_end pl # es)" "s' = s4"
          by simp_all
        from Cons.IH [OF r] Inr me
        have al: "\<forall>pl\<in>set pls. has_cable (pl_start pl) (pl_end pl)
                    \<longrightarrow> rotation_from_z (segment_vector pl) \<noteq> Identity_method"
          and ms: "ms = [length (heap s3)..<length (heap s3) + length (?kept pls)]"
          and es: "es = map pl_end (?kept pls)"
          and h4': "heap s4 = heap s3 @ map (\<lambda>pl. cable_value (pl_start pl) (pl_end pl)) (?kept pls)"
          by simp_all
        have a1: "\<forall>p\<in>set (pl # pls). has_cable (pl_start p) (pl_end p)
                    \<longrightarrow> rotation_from_z (segment_vector p) \<noteq> Identity_method"
          using al A_transform by simp
        have a2: "cyl # ms = [length (heap s)..<length (heap s) + length (?kept (pl # pls))]"
          unfolding cyl ms h3 using True
            upt_Suc_front [of "length (heap s)" "length (?kept pls)"]
          by simp
        have a3: "pl_end pl # es = map pl_end (?kept (pl # pls))"
          unfolding es using True by simp
        have a4: "heap s4 = heap s @ map (\<lambda>pl. cable_value (pl_start pl) (pl_end pl)) (?kept (pl # pls))"
          unfolding h4' h3 using True by simp
        from a1 a2 a3 a4 grow caches show ?thesis unfolding res by simp
      qed
    qed
  qed
qed

lemma build_canopy_spec:
  assumes "build_canopy size_key n ct s = (res, s')"
  shows "case CANOPY_SPECS size_key of
           None \<Rightarrow> res = Inl KeyError \<and> s' = s
         | Some spec \<Rightarrow>
             res = Inr (length (heap s), Suc (length (heap s)), canopy_points spec n ct)
           \<and> heap s' = heap s @
               [transform_mesh (Translation 0 0 (- height_mm spec))
                  (cylinder_mesh (outer_radius_mm spec) (plate_thickness_mm spec) 96),
                transform_mesh (Translation 0 0 (- (height_mm spec - plate_thickness_mm spec)))
                  (cylinder_mesh (inner_radius_mm spec + plate_thickness_mm spec)
                     (height_mm spec - plate_thickness_mm spec) 96)]
           \<and> same_caches s s'"
  using assms
  by (auto simp: build_canopy_def create_cylinder_mesh_def alloc_def Transform_def Let_def
      same_caches_def nth_append split: option.splits)

subsection \<open>The small configuration, stage by stage\<close>

lemma ex_canopy:
  "build_canopy (canopy_size ex_config) (int (length (pendants ex_config))) (cluster_type ex_config)
     init_state = (Inr (0, 1, ex_points), ex_state_canopy)"
proof -
  have p: "canopy_points (the (CANOPY_SPECS ''s'')) 2 (Some RING_WITH_CENTER) = ex_points"
    by (simp add: canopy_points_def CANOPY_SPECS_def Let_def ex_points_def)
  have c: "canopy_size ex_config = ''s''" "int (length (pendants ex_config)) = 2"
    "cluster_type ex_config = Some RING_WITH_CENTER" by (simp_all add: ex_config_def)
  have s: "CANOPY_SPECS ''s'' = Some (the (CANOPY_SPECS ''s''))" by (simp add: CANOPY_SPECS_def)
  have v: "outer_radius_mm (the (CANOPY_SPECS ''s'')) = 150" "inner_radius_mm (the (CANOPY_SPECS ''s'')) = 130"
    "height_mm (the (CANOPY_SPECS ''s'')) = 40" "plate_thickness_mm (the (CANOPY_SPECS ''s'')) = 3 / 2"
    by (simp_all add: CANOPY_SPECS_def)
  obtain res s' where run: "build_canopy ''s'' 2 (Some RING_WITH_CENTER) init_state = (res, s')"
    by (cases "build_canopy ''s'' 2 (Some RING_WITH_CENTER) init_state")
  from build_canopy_spec [OF run] s
  have "res = Inr (length (heap init_state), Suc (length (heap init_state)),
                   canopy_points (the (CANOPY_SPECS ''s'')) 2 (Some RING_WITH_CENTER))"
    and "heap s' = heap init_state @
               [transform_mesh (Translation 0 0 (- height_mm (the (CANOPY_SPECS ''s''))))
                  (cylinder_mesh (outer_radius_mm (the (CANOPY_SPECS ''s''))) (plate_thickness_mm (the (CANOPY_SPECS ''s''))) 96),
                transform_mesh (Translation 0 0 (- (height_mm (the (CANOPY_SPECS ''s'')) - plate_thickness_mm (the (CANOPY_SPECS ''s'')))))
                  (cylinder_mesh (inner_radius_mm (the (CANOPY_SPECS ''s'')) + plate_thickness_mm (the (CANOPY_SPECS ''s'')))
                     (height_mm (the (CANOPY_SPECS ''s'')) - plate_thickness_mm (the (CANOPY_SPECS ''s''))) 96)]"
    and "same_caches init_state s'"
    by (auto split: option.splits)
  then have "res = Inr (0, 1, ex_points)" and "s' = ex_state_canopy"
    unfolding p v
    by (simp_all add: init_state_def ex_state_canopy_def ex_canopy_bottom_def ex_canopy_top_def
        same_caches_def)
  with run show ?thesis unfolding c by simp
qed

lemma ex_load_all_canopy:
  "load_all ex_env (pendants ex_config) ex_state_canopy
     = (Inr ([100, 100], [100, 100], [[3], [4]]),
        \<lparr>heap = [ex_canopy_bottom, ex_canopy_top, ex_template, ex_template, ex_template],
         load_cache = (\<lambda>k. None)(''denny'' \<mapsto> [2]),
         extents_cache = (\<lambda>k. None)(''denny'' \<mapsto> (100, 100))\<rparr>)"
  by (simp add: ex_config_def ex_state_canopy_def pendant_extents_def load_pendant_meshes_def ex_path
      ex_env_def Let_def extents_of_meshes_def union_of_boxes_def GetBoundingBox_def ex_template_def
      Duplicate_def alloc_def numeral_2_eq_2)

lemma ex_place_canopy:
  "place_pendants_then_plan_cables ex_env ex_config ex_points ex_state_canopy
     = (Inr [ex_placement0, ex_placement1], ex_state_placed)"
proof -
  have up: "[0..<2] = [0, Suc 0]" by (simp add: upt_rec)
  have n: "length (pendants ex_config) = 2" by (simp add: ex_config_def)
  have f: "first_drop_mm ex_config = 100" "total_drop_mm ex_config = 200"
    "cluster_type ex_config = Some RING_WITH_CENTER" by (simp_all add: ex_config_def)
  have r: "rng_random ex_env g = (0, Suc g)" for g by (simp add: ex_env_def)
  show ?thesis
    unfolding place_pendants_then_plan_cables_def Let_def n f ex_load_all_canopy
    apply (simp add: ex_drops ex_indices)
    apply (simp add: up r ex_points_def ex_config_def Let_def Duplicate_def alloc_def Transform_def
        ex_placement0_def ex_placement1_def ex_state_placed_def ex_pendant0_def ex_pendant1_def
        numeral_2_eq_2)
    done
qed

lemma ex_rotation:
  "rotation_from_z (Vector3d 0 0 (- 100)) = A_transform (Rotation pi (Vector3d 1 0 0) (Point3d 0 0 0))"
  by (simp add: rotation_from_z_def Unitize_def vec_length_vertical Let_def)

lemma ex_cables:
  "build_cables_from_placements [ex_placement0, ex_placement1] ex_state_placed
     = (Inr ([7], [Point3d 110 0 (- 140)]), ex_state_placed\<lparr>heap := heap ex_state_placed @ [ex_cable0]\<rparr>)"
proof -
  have d0: "segment_vector ex_placement0 = Vector3d 0 0 (- 100)"
    by (simp add: segment_vector_def ex_placement0_def)
  have d1: "segment_vector ex_placement1 = Vector3d 0 0 0"
    by (simp add: segment_vector_def ex_placement1_def)
  have l: "length (heap ex_state_placed) = 7" by (simp add: ex_state_placed_def)
  show ?thesis
    apply (simp add: Let_def d0 d1 vec_length_vertical ex_rotation create_cylinder_mesh_def alloc_def
        Transform_checked_def Transform_def l)
    apply (simp add: ex_placement0_def ex_cable0_def ex_state_placed_def)
    done
qed

lemma ex_build:
  "build_mesh_groups ex_env ex_config init_state
     = (Inr ([MeshGroup 0 ''canopy_black'', MeshGroup 1 ''canopy_black'', MeshGroup 7 ''cable_black'',
              MeshGroup 5 ''shade_natural'', MeshGroup 6 ''shade_white''],
             [''canopy_black'', ''cable_black'', ''shade_natural'', ''shade_white'']),
        ex_state_placed\<lparr>heap := heap ex_state_placed @ [ex_cable0]\<rparr>)"
  unfolding build_mesh_groups_def Let_def ex_canopy
  apply (simp add: ex_place_canopy ex_cables del: build_cables_from_placements.simps)
  apply (simp add: collect_mesh_groups_def unique_material_keys_def Let_def ex_config_def
      ex_placement0_def ex_placement1_def)
  done

subsection \<open>The order of the mesh groups and of the material keys\<close>

text \<open>
  Claim C7. When \<^verbatim>\<open>build_mesh_groups\<close> returns, its group list is: the canopy bottom disc, the
  canopy top disc, every cable mesh in the order \<^verbatim>\<open>build_cables_from_placements\<close> returned them
  (placement order), then for each placement, in order, all of its pendant's meshes. The first two
  carry the canopy material key, the cables the cable key, a pendant's meshes that pendant's
  appearance key; the placements are one per configured pendant, in the configured order. The key
  list holds each key of the group list exactly once, ordered by first occurrence in that list.
\<close>

theorem build_mesh_groups_order:
  assumes "build_mesh_groups env config s = (Inr (mesh_groups, material_keys), s')"
    and "build_canopy (canopy_size config) (int (length (pendants config))) (cluster_type config) s
           = (Inr (bottom_mesh, top_mesh, connection_points), s1)"
    and "place_pendants_then_plan_cables env config connection_points s1 = (Inr placements, s2)"
    and "build_cables_from_placements placements s2 = (Inr (cable_meshes, ends), s3)"
  shows "mesh_groups =
           [MeshGroup bottom_mesh (canopy_appearance config), MeshGroup top_mesh (canopy_appearance config)]
           @ map (\<lambda>cm. MeshGroup cm (cable_appearance config)) cable_meshes
           @ concat (map (\<lambda>pl. map (\<lambda>pm. MeshGroup pm (pendant_appearance (pl_pendant pl))) (pl_meshes pl))
                         placements)
       \<and> map pl_pendant placements = pendants config
       \<and> material_keys = rev (remdups (rev (map mg_material_key mesh_groups)))
       \<and> distinct material_keys
       \<and> set material_keys = mg_material_key ` set mesh_groups"
proof -
  from assms have g: "mesh_groups = collect_mesh_groups config bottom_mesh top_mesh cable_meshes placements"
    and k: "material_keys = unique_material_keys mesh_groups"
    by (auto simp add: build_mesh_groups_def Let_def)
  from assms(3) obtain idx drops mbi rng1 sa where
    loop: "place_loop env (pendants config) connection_points idx drops mbi
             [0..<length (pendants config)] rng1 sa = (Inr placements, s2)"
    by (auto simp: place_pendants_then_plan_cables_def Let_def split: sum.splits prod.splits)
  from place_loop_points [OF loop]
  have "map pl_pendant placements = map (\<lambda>i. pendants config ! i) [0..<length (pendants config)]"
    by simp
  then have p: "map pl_pendant placements = pendants config"
    by (simp add: map_nth)
  have k': "material_keys = rev (remdups (rev (map mg_material_key mesh_groups)))"
    unfolding k by (rule unique_material_keys_eq)
  have "distinct material_keys" unfolding k' by simp
  moreover have "set material_keys = mg_material_key ` set mesh_groups" unfolding k' by simp
  ultimately show ?thesis
    using g p k' by (simp add: collect_mesh_groups_eq)
qed

theorem build_mesh_groups_order_witness:
  "build_mesh_groups ex_env ex_config init_state
     = (Inr ([MeshGroup 0 ''canopy_black'', MeshGroup 1 ''canopy_black'', MeshGroup 7 ''cable_black'',
              MeshGroup 5 ''shade_natural'', MeshGroup 6 ''shade_white''],
             [''canopy_black'', ''cable_black'', ''shade_natural'', ''shade_white'']),
        ex_state_placed\<lparr>heap := heap ex_state_placed @ [ex_cable0]\<rparr>)
   \<and> build_canopy (canopy_size ex_config) (int (length (pendants ex_config))) (cluster_type ex_config)
        init_state = (Inr (0, 1, ex_points), ex_state_canopy)
   \<and> place_pendants_then_plan_cables ex_env ex_config ex_points ex_state_canopy
       = (Inr [ex_placement0, ex_placement1], ex_state_placed)
   \<and> build_cables_from_placements [ex_placement0, ex_placement1] ex_state_placed
       = (Inr ([7], [Point3d 110 0 (- 140)]), ex_state_placed\<lparr>heap := heap ex_state_placed @ [ex_cable0]\<rparr>)
   \<and> [MeshGroup 0 ''canopy_black'', MeshGroup 1 ''canopy_black'', MeshGroup 7 ''cable_black'',
       MeshGroup 5 ''shade_natural'', MeshGroup 6 ''shade_white'']
      = [MeshGroup 0 (canopy_appearance ex_config), MeshGroup 1 (canopy_appearance ex_config)]
        @ map (\<lambda>cm. MeshGroup cm (cable_appearance ex_config)) [7]
        @ concat (map (\<lambda>pl. map (\<lambda>pm. MeshGroup pm (pendant_appearance (pl_pendant pl))) (pl_meshes pl))
                      [ex_placement0, ex_placement1])
   \<and> map pl_pendant [ex_placement0, ex_placement1] = pendants ex_config
   \<and> distinct [''canopy_black'', ''cable_black'', ''shade_natural'', ''shade_white'']"
proof -
  note inst = build_mesh_groups_order [OF ex_build ex_canopy ex_place_canopy ex_cables]
  from inst have a: "[MeshGroup 0 ''canopy_black'', MeshGroup 1 ''canopy_black'', MeshGroup 7 ''cable_black'',
       MeshGroup 5 ''shade_natural'', MeshGroup 6 ''shade_white'']
      = [MeshGroup 0 (canopy_appearance ex_config), MeshGroup 1 (canopy_appearance ex_config)]
        @ map (\<lambda>cm. MeshGroup cm (cable_appearance ex_config)) [7]
        @ concat (map (\<lambda>pl. map (\<lambda>pm. MeshGroup pm (pendant_appearance (pl_pendant pl))) (pl_meshes pl))
                      [ex_placement0, ex_placement1])"
    by (rule conjunct1)
  from inst have b: "map pl_pendant [ex_placement0, ex_placement1] = pendants ex_config"
    by (rule conjunct2 [THEN conjunct1])
  from inst have c: "distinct [''canopy_black'', ''cable_black'', ''shade_natural'', ''shade_white'']"
    by (rule conjunct2 [THEN conjunct2, THEN conjunct2, THEN conjunct1])
  from ex_build ex_canopy ex_place_canopy ex_cables a b c show ?thesis
    by blast
qed

subsection \<open>Where the cable cylinder ends up\<close>


lemma vec_length_nonneg: "0 \<le> vec_length v"
  unfolding vec_length_def by (simp add: add_nonneg_nonneg)




lemma rotation_from_z_Identity_iff:
  "rotation_from_z d = Identity_method \<longleftrightarrow> \<bar>max (- 1) (min 1 (VZ (Unitize d))) - 1\<bar> < 1 / 10 ^ 8"
proof -
  let ?c = "max (- 1) (min 1 (VZ (Unitize d)))"
  have dot: "VX (Vector3d 0 0 1) * VX (Unitize d) + VY (Vector3d 0 0 1) * VY (Unitize d)
               + VZ (Vector3d 0 0 1) * VZ (Unitize d) = VZ (Unitize d)" by simp
  have rz: "rotation_from_z d =
      (if \<bar>?c - 1\<bar> < 1 / 10 ^ 8 then Identity_method
       else if \<bar>?c + 1\<bar> < 1 / 10 ^ 8 then A_transform (Rotation pi (Vector3d 1 0 0) (Point3d 0 0 0))
       else A_transform (Rotation (arccos ?c) (CrossProduct (Vector3d 0 0 1) (Unitize d))
                           (Point3d 0 0 0)))"
    unfolding rotation_from_z_def Let_def dot ..
  show ?thesis
  proof (cases "\<bar>?c - 1\<bar> < 1 / 10 ^ 8")
    case True
    then have "rotation_from_z d = Identity_method" unfolding rz by (simp only: if_True)
    with True show ?thesis by blast
  next
    case False
    show ?thesis
    proof (cases "\<bar>?c + 1\<bar> < 1 / 10 ^ 8")
      case True
      with False have "rotation_from_z d = A_transform (Rotation pi (Vector3d 1 0 0) (Point3d 0 0 0))"
        unfolding rz by (simp only: if_True if_False)
      with False show ?thesis by simp
    next
      case far: False
      with False have "rotation_from_z d
          = A_transform (Rotation (arccos ?c) (CrossProduct (Vector3d 0 0 1) (Unitize d)) (Point3d 0 0 0))"
        unfolding rz by (simp only: if_False)
      with False show ?thesis by simp
    qed
  qed
qed

lemma rotation_from_z_up:
  assumes "VX d = 0" and "VY d = 0" and "0 < VZ d"
  shows "rotation_from_z d = Identity_method"
proof -
  have d: "d = Vector3d 0 0 (VZ d)" using assms by (cases d) simp
  have l: "vec_length d = VZ d"
    using vec_length_vertical [of "VZ d"] assms(3) d by simp
  then have u: "Unitize d = Vector3d 0 0 1"
    using assms by (simp add: Unitize_def)
  show ?thesis by (simp add: rotation_from_z_def u Let_def)
qed






subsection \<open>Cables of degenerate segments\<close>






text \<open>
  Line 55 at work. With two pendants that reach 150 above and below their origin (first drop 100,
  total drop 200) the drops are 100 and \<open>- 100\<close>: the second segment points straight up,
  \<^verbatim>\<open>_rotation_from_z\<close> returns the method object, and \<^verbatim>\<open>cyl.Transform\<close> raises
  \<^verbatim>\<open>TypeError\<close>, which \<^verbatim>\<open>build_mesh_groups\<close> passes on.
\<close>

lemma upward_segment_raises:
  "fst (build_mesh_groups ex_env ex_config_tall init_state) = Inl TypeError"
proof -
  let ?cfg = ex_config_tall
  have cfg: "canopy_size ?cfg = ''s''" "int (length (pendants ?cfg)) = 2"
    "cluster_type ?cfg = Some RING_WITH_CENTER"
    by (simp_all add: ex_config_tall_def ex_config_def)
  have spec: "CANOPY_SPECS ''s'' = Some (the (CANOPY_SPECS ''s''))" by (simp add: CANOPY_SPECS_def)
  have pts: "canopy_points (the (CANOPY_SPECS ''s'')) 2 (Some RING_WITH_CENTER) = ex_points"
    by (simp add: canopy_points_def CANOPY_SPECS_def Let_def ex_points_def)
  obtain r0 s1 where bc: "build_canopy ''s'' 2 (Some RING_WITH_CENTER) init_state = (r0, s1)"
    by (cases "build_canopy ''s'' 2 (Some RING_WITH_CENTER) init_state")
  from build_canopy_spec [OF bc] spec pts obtain zs where
    r0: "r0 = Inr (length (heap init_state), Suc (length (heap init_state)), ex_points)"
    and h1: "heap s1 = heap init_state @ zs" and c1: "same_caches init_state s1"
    by (auto split: option.splits)
  have ok1: "store_ok ex_env s1" using store_ok_init h1 c1 by (rule store_ok_append)
  obtain r2 s2 where pl: "place_pendants_then_plan_cables ex_env ?cfg ex_points s1 = (r2, s2)"
    by (cases "place_pendants_then_plan_cables ex_env ?cfg ex_points s1")
  let ?run0 = "place_pendants_then_plan_cables ex_env ?cfg ex_points init_state"
  have run0: "?run0 = (fst ?run0, snd ?run0)" by simp
  from place_spec [OF store_ok_init run0] place_spec [OF ok1 pl]
  have "map_sum id (map (placement_value s2)) r2
          = map_sum id (map (placement_value (snd ?run0))) (fst ?run0)" by simp
  then obtain q0 q1 where r2: "r2 = Inr [q0, q1]"
    and q1: "pl_start q1 = Point3d 0 0 (- 40)" "pl_end q1 = Point3d 0 0 60"
    unfolding ex_tall_place
    by (cases r2) (auto simp: placement_value_def)
  have seg: "segment_vector q1 = Vector3d 0 0 100" by (simp add: segment_vector_def q1)
  have long: "has_cable (pl_start q1) (pl_end q1)"
    by (simp add: has_cable_def q1 vec_length_vertical)
  have up: "rotation_from_z (segment_vector q1) = Identity_method"
    unfolding seg by (rule rotation_from_z_up) simp_all
  obtain r3 s3 where cab: "build_cables_from_placements [q0, q1] s2 = (r3, s3)"
    by (cases "build_cables_from_placements [q0, q1] s2")
  have "r3 = Inl TypeError"
  proof (cases r3)
    case (Inl e)
    with build_cables_spec [OF cab] show ?thesis by simp
  next
    case (Inr me)
    with build_cables_spec [OF cab] long up show ?thesis by (cases me) auto
  qed
  with bc r0 pl r2 cab show ?thesis
    by (simp add: build_mesh_groups_def cfg del: build_cables_from_placements.simps)
qed

subsection \<open>The build computes the planned scene\<close>

lemma place_loop_refs:
  assumes "\<forall>refs\<in>set mbi. \<forall>r\<in>set refs. r < length (heap s)"
    and "\<forall>i\<in>set is. i < length mbi"
    and "place_loop env ps cp idx drops mbi is rng s = (Inr pls, s')"
  shows "\<forall>pl\<in>set pls. \<forall>r\<in>set (pl_meshes pl). r < length (heap s')"
  using assms
proof (induction "is" arbitrary: rng s pls s')
  case Nil
  then show ?case by simp
next
  case (Cons i "is")
  from Cons.prems(3) have inside: "\<not> (length idx \<le> i \<or> length cp \<le> idx ! i)"
    by (auto split: if_splits)
  define sp where "sp = cp ! (idx ! i)"
  define ep where "ep = Point3d (X sp) (Y sp) (Z sp - drops ! i)"
  obtain r rng1 where rr: "rng_random env rng = (r, rng1)" by (cases "rng_random env rng")
  define rot where "rot = Rotation (r * (2 * pi)) (Vector3d 0 0 1) (Point3d 0 0 0)"
  define tr where "tr = Translation (X ep) (Y ep) (Z ep)"
  obtain placed s1 where pm: "place_meshes rot tr (mbi ! i) s = (placed, s1)"
    by (cases "place_meshes rot tr (mbi ! i) s")
  obtain r2 s2 where rec: "place_loop env ps cp idx drops mbi is rng1 s1 = (r2, s2)"
    by (cases "place_loop env ps cp idx drops mbi is rng1 s1")
  from Cons.prems(2) have i: "i < length mbi" by simp
  then have mi: "mbi ! i \<in> set mbi" by simp
  with Cons.prems(1) have iin: "\<forall>r\<in>set (mbi ! i). r < length (heap s)" by blast
  from place_meshes_spec [OF iin pm]
  have placed: "placed = [length (heap s)..<length (heap s) + length (mbi ! i)]"
    and h1: "heap s1 = heap s @ map (\<lambda>r. transform_mesh tr (transform_mesh rot (heap s ! r))) (mbi ! i)"
    by simp_all
  have in1: "\<forall>refs\<in>set mbi. \<forall>r\<in>set refs. r < length (heap s1)"
  proof (intro ballI)
    fix refs r assume "refs \<in> set mbi" "r \<in> set refs"
    with Cons.prems(1) have "r < length (heap s)" by blast
    then show "r < length (heap s1)" unfolding h1 by simp
  qed
  have is1: "\<forall>i\<in>set is. i < length mbi" using Cons.prems(2) by simp
  have step: "place_loop env ps cp idx drops mbi (i # is) rng s
      = (case r2 of Inl e \<Rightarrow> (Inl e, s2)
         | Inr placements \<Rightarrow>
             (Inr (\<lparr>pl_pendant = ps ! i, pl_start = sp, pl_end = ep, pl_meshes = placed\<rparr> # placements), s2))"
    using inside rr pm rec
    by (simp add: Let_def sp_def ep_def rot_def tr_def split: sum.splits)
  from step Cons.prems(3) obtain rest where r2: "r2 = Inr rest"
    and pls: "pls = \<lparr>pl_pendant = ps ! i, pl_start = sp, pl_end = ep, pl_meshes = placed\<rparr> # rest"
    and s': "s' = s2"
    by (cases r2) simp_all
  from place_loop_spec [OF in1 is1 rec] obtain zs where h2: "heap s2 = heap s1 @ zs" by blast
  from Cons.IH [OF in1 is1 rec [unfolded r2]]
  have rest: "\<forall>pl\<in>set rest. \<forall>r\<in>set (pl_meshes pl). r < length (heap s2)" .
  have "\<forall>r\<in>set placed. r < length (heap s2)"
    unfolding placed h2 h1 by simp
  with rest show ?case unfolding pls s' by simp
qed

lemma place_refs:
  assumes ok: "store_ok env s"
    and run: "place_pendants_then_plan_cables env config cp s = (Inr pls, s')"
  shows "\<forall>pl\<in>set pls. \<forall>r\<in>set (pl_meshes pl). r < length (heap s')"
proof -
  let ?n = "length (pendants config)"
  obtain r1 s1 where l: "load_all env (pendants config) s = (r1, s1)"
    by (cases "load_all env (pendants config) s")
  note sp1 = load_all_spec [OF ok l]
  from run l obtain tops bottoms mbi where r1: "r1 = Inr (tops, bottoms, mbi)"
    by (cases r1) (auto simp: place_pendants_then_plan_cables_def)
  from sp1 r1 have min: "\<forall>refs\<in>set mbi. \<forall>r\<in>set refs. r < length (heap s1)"
    and td: "template_data env (pendants config)
               = Inr (tops, bottoms, map (map (\<lambda>r. heap s1 ! r)) mbi)" by simp_all
  from template_data_lengths [OF td] have len: "length mbi = ?n" by simp
  from run l r1 obtain idx drops rng1 where
    pl: "place_loop env (pendants config) cp idx drops mbi [0..<?n] rng1 s1 = (Inr pls, s')"
    by (auto simp: place_pendants_then_plan_cables_def Let_def split: sum.splits prod.splits)
  have rng_ok: "\<forall>i\<in>set [0..<?n]. i < length mbi" using len by simp
  from place_loop_refs [OF min rng_ok pl] show ?thesis .
qed

lemma nth_fresh: "map (\<lambda>i. (xs @ zs) ! i) [length xs..<length xs + length zs] = zs"
  by (intro nth_equalityI) (auto simp: nth_append)

lemma build_mesh_groups_spec:
  assumes ok: "store_ok env s"
    and run: "build_mesh_groups env config s = (res, s')"
  shows "store_ok env s' \<and> grows s s'
       \<and> map_sum id (\<lambda>(mesh_groups, material_keys). (group_values s' mesh_groups, material_keys)) res
           = planned_scene env config"
proof -
  let ?n = "length (pendants config)"
  obtain r0 s1 where bc: "build_canopy (canopy_size config) (int ?n) (cluster_type config) s = (r0, s1)"
    by (cases "build_canopy (canopy_size config) (int ?n) (cluster_type config) s")
  note cs = build_canopy_spec [OF bc]
  show ?thesis
  proof (cases "CANOPY_SPECS (canopy_size config)")
    case None
    with cs have "r0 = Inl KeyError" "s1 = s" by simp_all
    with bc run have "res = Inl KeyError" "s' = s" by (simp_all add: build_mesh_groups_def)
    with ok None show ?thesis by (simp add: planned_scene_def)
  next
    case (Some spec)
    let ?cp = "canopy_points spec (int ?n) (cluster_type config)"
    from cs Some have r0: "r0 = Inr (length (heap s), Suc (length (heap s)), ?cp)"
      and h1: "heap s1 = heap s @ canopy_values spec"
      and c1: "same_caches s s1" by (simp_all add: canopy_values_def)
    have ok1: "store_ok env s1" using ok h1 c1 by (rule store_ok_append)
    have g1: "grows s s1" using h1 c1 by (rule grows_append)
    obtain r2 s2 where pl: "place_pendants_then_plan_cables env config ?cp s1 = (r2, s2)"
      by (cases "place_pendants_then_plan_cables env config ?cp s1")
    from place_spec [OF ok1 pl] have ok2: "store_ok env s2" and g2: "grows s1 s2"
      and v2: "map_sum id (map (placement_value s2)) r2 = planned_placements env config ?cp"
      by simp_all
    show ?thesis
    proof (cases r2)
      case (Inl e)
      with bc r0 pl run have "res = Inl e" "s' = s2" by (simp_all add: build_mesh_groups_def)
      moreover from v2 Inl have "planned_placements env config ?cp = Inl e" by simp
      ultimately show ?thesis using ok2 grows_trans [OF g1 g2] Some
        by (simp add: planned_scene_def)
    next
      case (Inr pls)
      from v2 Inr have pp: "planned_placements env config ?cp = Inr (map (placement_value s2) pls)"
        by simp
      from place_refs [OF ok1 pl [unfolded Inr]]
      have refs: "\<forall>pl\<in>set pls. \<forall>r\<in>set (pl_meshes pl). r < length (heap s2)" .
      obtain r3 s3 where bcab: "build_cables_from_placements pls s2 = (r3, s3)"
        by (cases "build_cables_from_placements pls s2")
      let ?kept = "filter (\<lambda>pl. has_cable (pl_start pl) (pl_end pl)) pls"
      let ?cv = "map (\<lambda>pl. cable_value (pl_start pl) (pl_end pl)) ?kept"
      note cs3 = build_cables_spec [OF bcab]
      from cs3 obtain zs where h3z: "heap s3 = heap s2 @ zs" and c3: "same_caches s2 s3" by blast
      have ok3: "store_ok env s3" using ok2 h3z c3 by (rule store_ok_append)
      have g3: "grows s2 s3" using h3z c3 by (rule grows_append)
      have g13: "grows s1 s3" using g2 g3 by (rule grows_trans)
      have g03: "grows s s3" using g1 g13 by (rule grows_trans)
      have up: "(\<exists>pv\<in>set (map (placement_value s2) pls).
                   has_cable (pv_start pv) (pv_end pv) \<and> points_up (pv_start pv) (pv_end pv))
              \<longleftrightarrow> (\<exists>pl\<in>set pls. has_cable (pl_start pl) (pl_end pl)
                     \<and> rotation_from_z (segment_vector pl) = Identity_method)"
        by (simp add: placement_value_def points_up_def segment_vector_def Let_def)
      show ?thesis
      proof (cases r3)
        case e: (Inl e)
        with cs3 have te: "e = TypeError"
          and ex: "\<exists>pl\<in>set pls. has_cable (pl_start pl) (pl_end pl)
                     \<and> rotation_from_z (segment_vector pl) = Identity_method" by simp_all
        from bc r0 pl Inr bcab e te run have "res = Inl TypeError" "s' = s3"
          by (simp_all add: build_mesh_groups_def Let_def)
        moreover have "planned_scene env config = Inl TypeError"
          using ex up by (simp add: planned_scene_def Some pp del: set_map)
        ultimately show ?thesis using ok3 g03 by simp
      next
        case me: (Inr me)
        obtain cms ends where me': "me = (cms, ends)" by (cases me)
        from cs3 me me'
        have nu: "\<forall>pl\<in>set pls. has_cable (pl_start pl) (pl_end pl)
                    \<longrightarrow> rotation_from_z (segment_vector pl) \<noteq> Identity_method"
          and cms: "cms = [length (heap s2)..<length (heap s2) + length ?kept]"
          and h3: "heap s3 = heap s2 @ ?cv" by simp_all
        have noup: "\<not> (\<exists>pv\<in>set (map (placement_value s2) pls).
                   has_cable (pv_start pv) (pv_end pv) \<and> points_up (pv_start pv) (pv_end pv))"
          unfolding up using nu by blast
      let ?groups = "collect_mesh_groups config (length (heap s)) (Suc (length (heap s))) cms pls"
      from bc r0 pl Inr bcab me me' run
      have res: "res = Inr (?groups, unique_material_keys ?groups)" and s': "s' = s3"
        by (simp_all add: build_mesh_groups_def Let_def)
      have lcv: "length (canopy_values spec) = 2" by (simp add: canopy_values_def)
      have l1: "length (heap s1) = length (heap s) + 2" unfolding h1 by (simp add: lcv)
      have "heap s3 ! length (heap s) = heap s1 ! length (heap s)"
        by (rule grows_nth [OF g13]) (simp add: l1)
      then have b: "heap s3 ! length (heap s) = canopy_values spec ! 0"
        unfolding h1 by (simp add: nth_append)
      have "heap s3 ! Suc (length (heap s)) = heap s1 ! Suc (length (heap s))"
        by (rule grows_nth [OF g13]) (simp add: l1)
      then have t: "heap s3 ! Suc (length (heap s)) = canopy_values spec ! 1"
        unfolding h1 by (simp add: nth_append)
      have cv: "map (\<lambda>i. heap s3 ! i) cms = ?cv"
        unfolding cms h3 using nth_fresh [of "heap s2" ?cv] by simp
      have pv: "map (\<lambda>r. heap s3 ! r) (pl_meshes pl) = pv_meshes (placement_value s2 pl)"
        if "pl \<in> set pls" for pl
      proof -
        from refs that have "\<forall>r\<in>set (pl_meshes pl). r < length (heap s2)" by blast
        then show ?thesis using grows_nth [OF g3] by (simp add: placement_value_def)
      qed
      have gv: "group_values s3 ?groups = planned_groups config spec (map (placement_value s2) pls)"
      proof -
        have a: "group_values s3 [MeshGroup (length (heap s)) (canopy_appearance config),
                                  MeshGroup (Suc (length (heap s))) (canopy_appearance config)]
               = map (\<lambda>m. (m, canopy_appearance config)) (canopy_values spec)"
          by (simp add: group_values_def b t canopy_values_def)
        have c: "group_values s3 (map (\<lambda>cm. MeshGroup cm (cable_appearance config)) cms)
               = map (\<lambda>pv. (cable_value (pv_start pv) (pv_end pv), cable_appearance config))
                   (filter (\<lambda>pv. has_cable (pv_start pv) (pv_end pv)) (map (placement_value s2) pls))"
        proof -
          have "group_values s3 (map (\<lambda>cm. MeshGroup cm (cable_appearance config)) cms)
              = map (\<lambda>m. (m, cable_appearance config)) (map (\<lambda>i. heap s3 ! i) cms)"
            by (simp add: group_values_def comp_def)
          also have "\<dots> = map (\<lambda>m. (m, cable_appearance config)) ?cv" by (simp only: cv)
          also have "\<dots> = map (\<lambda>pv. (cable_value (pv_start pv) (pv_end pv), cable_appearance config))
                   (filter (\<lambda>pv. has_cable (pv_start pv) (pv_end pv)) (map (placement_value s2) pls))"
            by (simp add: filter_map comp_def placement_value_def)
          finally show ?thesis .
        qed
        have p: "group_values s3
                   (concat (map (\<lambda>pl. map (\<lambda>pm. MeshGroup pm (pendant_appearance (pl_pendant pl)))
                                        (pl_meshes pl)) pls))
               = concat (map (\<lambda>pv. map (\<lambda>m. (m, pendant_appearance (pv_pendant pv))) (pv_meshes pv))
                             (map (placement_value s2) pls))"
        proof -
          have "map (\<lambda>mg. (heap s3 ! mg_mesh mg, mg_material_key mg))
                    (map (\<lambda>pm. MeshGroup pm (pendant_appearance (pl_pendant pl))) (pl_meshes pl))
              = map (\<lambda>m. (m, pendant_appearance (pv_pendant (placement_value s2 pl))))
                    (pv_meshes (placement_value s2 pl))"
            if "pl \<in> set pls" for pl
            unfolding pv [OF that, symmetric] by (simp add: comp_def placement_value_def)
          then show ?thesis
            by (simp add: group_values_def map_concat comp_def cong: map_cong)
        qed
        have split: "group_values s3 (xs @ ys) = group_values s3 xs @ group_values s3 ys" for xs ys
          by (simp add: group_values_def)
        show ?thesis
          unfolding collect_mesh_groups_eq planned_groups_def split a c p by simp
      qed
      have keys: "unique_material_keys ?groups = rev (remdups (rev (map snd (group_values s3 ?groups))))"
        unfolding unique_material_keys_eq by (simp add: group_values_def comp_def)
      have "planned_scene env config
              = Inr (group_values s3 ?groups, unique_material_keys ?groups)"
        unfolding keys gv using noup by (simp add: planned_scene_def Some pp Let_def del: set_map)
      with res s' ok3 g03 show ?thesis by simp
      qed
    qed
  qed
qed

lemma build_and_export_spec:
  assumes ok: "store_ok env s"
  shows "fst (build_and_export lib env config s) = planned_export lib env config
       \<and> store_ok env (snd (build_and_export lib env config s))"
proof -
  obtain res s' where run: "build_mesh_groups env config s = (res, s')"
    by (cases "build_mesh_groups env config s")
  from build_mesh_groups_spec [OF ok run] have ok': "store_ok env s'"
    and v: "map_sum id (\<lambda>(mesh_groups, material_keys). (group_values s' mesh_groups, material_keys)) res
           = planned_scene env config" by simp_all
  show ?thesis
  proof (cases res)
    case (Inl e)
    with v have "planned_scene env config = Inl e" by simp
    with run Inl ok' show ?thesis by (simp add: build_and_export_def planned_export_def)
  next
    case (Inr gk)
    obtain gs ks where gk: "gk = (gs, ks)" by (cases gk)
    from v Inr gk have "planned_scene env config = Inr (group_values s' gs, ks)" by simp
    with run Inr gk ok' show ?thesis
      by (simp add: build_and_export_def planned_export_def save_mesh_groups_as_glb_def
          group_values_def)
  qed
qed

subsection \<open>Determinism of the pipeline\<close>

text \<open>
  Claim C1. The environment fixes the contents of the pendant files, the generator that
  \<^verbatim>\<open>random.Random(seed)\<close> gives for a seed and its \<^verbatim>\<open>shuffle\<close> and \<^verbatim>\<open>random\<close>; the
  library fixes \<^verbatim>\<open>struct.pack\<close>, \<^verbatim>\<open>json.dumps\<close> and \<^verbatim>\<open>str.strip\<close>. Two runs of the
  pipeline (\<^verbatim>\<open>build_mesh_groups\<close>, then \<^verbatim>\<open>save_mesh_groups_as_glb\<close>) on the same
  configuration start from different stores: the second finds the templates cached and the objects
  of the first run in memory, and works on other references. From any two consistent stores (that
  of a fresh process is one, and a run leaves one) the two runs write the same bytes, or raise the
  same error: the bytes that \<open>planned_export\<close> computes from the environment and the
  configuration. Likewise the placements of \<^verbatim>\<open>place_pendants_then_plan_cables\<close>, read as
  values, are those of \<open>planned_placements\<close>, a function of the configuration and the attachment
  points whose only generator is \<^verbatim>\<open>random.Random(config.random_seed)\<close>, used first for the
  shuffle and then for the twist of each pendant in turn.
\<close>

theorem pipeline_deterministic:
  assumes "store_ok env s" and "store_ok env t"
  shows "fst (build_and_export lib env config s) = fst (build_and_export lib env config t)
       \<and> fst (build_and_export lib env config s) = planned_export lib env config
       \<and> store_ok env (snd (build_and_export lib env config s))
       \<and> placements_of (place_pendants_then_plan_cables env config connection_points s)
           = placements_of (place_pendants_then_plan_cables env config connection_points t)
       \<and> placements_of (place_pendants_then_plan_cables env config connection_points s)
           = planned_placements env config connection_points"
proof -
  have p: "placements_of (place_pendants_then_plan_cables env config connection_points u)
             = planned_placements env config connection_points"
    if "store_ok env u" for u
  proof -
    let ?run = "place_pendants_then_plan_cables env config connection_points u"
    have "?run = (fst ?run, snd ?run)" by simp
    from place_spec [OF that this] show ?thesis by (simp add: placements_of_def)
  qed
  from build_and_export_spec [OF assms(1)] build_and_export_spec [OF assms(2)]
    p [OF assms(1)] p [OF assms(2)]
  show ?thesis by simp
qed

theorem pipeline_deterministic_witness:
  "\<forall>lib. store_ok ex_env init_state
     \<and> fst (build_mesh_groups ex_env ex_config init_state)
         = Inr ([MeshGroup 0 ''canopy_black'', MeshGroup 1 ''canopy_black'', MeshGroup 7 ''cable_black'',
                 MeshGroup 5 ''shade_natural'', MeshGroup 6 ''shade_white''],
                [''canopy_black'', ''cable_black'', ''shade_natural'', ''shade_white''])
     \<and> snd (build_and_export lib ex_env ex_config init_state)
         = ex_state_placed\<lparr>heap := heap ex_state_placed @ [ex_cable0]\<rparr>
     \<and> load_cache (ex_state_placed\<lparr>heap := heap ex_state_placed @ [ex_cable0]\<rparr>) ''denny'' = Some [2]
     \<and> store_ok ex_env (ex_state_placed\<lparr>heap := heap ex_state_placed @ [ex_cable0]\<rparr>)
     \<and> fst (build_and_export lib ex_env ex_config init_state)
         = fst (build_and_export lib ex_env ex_config
                  (ex_state_placed\<lparr>heap := heap ex_state_placed @ [ex_cable0]\<rparr>))"
proof
  fix lib
  let ?t = "ex_state_placed\<lparr>heap := heap ex_state_placed @ [ex_cable0]\<rparr>"
  have g: "fst (build_mesh_groups ex_env ex_config init_state)
         = Inr ([MeshGroup 0 ''canopy_black'', MeshGroup 1 ''canopy_black'', MeshGroup 7 ''cable_black'',
                 MeshGroup 5 ''shade_natural'', MeshGroup 6 ''shade_white''],
                [''canopy_black'', ''cable_black'', ''shade_natural'', ''shade_white''])"
    unfolding ex_build by simp
  have st: "snd (build_and_export lib ex_env ex_config init_state) = ?t"
    by (simp add: build_and_export_def ex_build)
  have lc: "load_cache ?t ''denny'' = Some [2]" by (simp add: ex_state_placed_def)
  from pipeline_deterministic [OF store_ok_init [of ex_env] store_ok_init [of ex_env], where lib = lib and config = ex_config]
  have "store_ok ex_env (snd (build_and_export lib ex_env ex_config init_state))" by blast
  then have ok: "store_ok ex_env ?t" unfolding st .
  from pipeline_deterministic [OF store_ok_init [of ex_env] ok, where lib = lib and config = ex_config]
  have eq: "fst (build_and_export lib ex_env ex_config init_state)
         = fst (build_and_export lib ex_env ex_config ?t)" by blast
  from store_ok_init [of ex_env] g st lc ok eq
  show "store_ok ex_env init_state
     \<and> fst (build_mesh_groups ex_env ex_config init_state)
         = Inr ([MeshGroup 0 ''canopy_black'', MeshGroup 1 ''canopy_black'', MeshGroup 7 ''cable_black'',
                 MeshGroup 5 ''shade_natural'', MeshGroup 6 ''shade_white''],
                [''canopy_black'', ''cable_black'', ''shade_natural'', ''shade_white''])
     \<and> snd (build_and_export lib ex_env ex_config init_state) = ?t
     \<and> load_cache ?t ''denny'' = Some [2]
     \<and> store_ok ex_env ?t
     \<and> fst (build_and_export lib ex_env ex_config init_state)
         = fst (build_and_export lib ex_env ex_config ?t)"
    by blast
qed

end
